theory Spec2Isabelle
  imports Main "HOL-Library.Word" "HOL-Library.Multiset" "HOL-Library.Monad_Syntax"
begin

unbundle bit_operations_syntax

section \<open>Constants and moves\<close>

text \<open>
  Modelled from the spec: the headers \<^verbatim>\<open>core/bitboard.h\<close>, \<^verbatim>\<open>core/move.h\<close> and
  \<^verbatim>\<open>core/zobrist.h\<close> are not among the sources. Their scalar constants have the values
  the specification gives (hex ids 0..18 with hex 9 in the centre, tile values 1..9, the
  start tile 1, \<^verbatim>\<open>turn:1\<close> for player 1 and \<^verbatim>\<open>turn:2\<close> for player 2), which agree with
  what the sources that are present spell out (\<^verbatim>\<open>HistoryTable::NUM_HEXES = 19\<close>).
\<close>

definition NUM_HEXES :: int where "NUM_HEXES = 19"
definition CENTER_HEX :: int where "CENTER_HEX = 9"
definition STARTING_TILE :: int where "STARTING_TILE = 1"
definition MAX_TILE_VALUE :: int where "MAX_TILE_VALUE = 9"
definition PLAYER_1 :: int where "PLAYER_1 = 1"
definition PLAYER_2 :: int where "PLAYER_2 = 2"

record move =
  hexId :: int
  tileValue :: int

definition Move :: "int \<Rightarrow> int \<Rightarrow> move" where
  "Move h v = \<lparr>hexId = h, tileValue = v\<rparr>"

text \<open>
  Modelled from the spec: the default-constructed \<^verbatim>\<open>Move()\<close> of move.h (absent) is the
  "invalid" sentinel that \<^verbatim>\<open>findBestMove\<close> returns when there is no legal move; a move is
  valid when its hex is one of the 19 hexes and its tile value is one of 1..9.
\<close>

definition Move_default :: move where
  "Move_default = \<lparr>hexId = - 1, tileValue = 0\<rparr>"

definition Move_isValid :: "move \<Rightarrow> bool" where
  "Move_isValid m \<longleftrightarrow>
     0 \<le> hexId m \<and> hexId m < NUM_HEXES \<and> 1 \<le> tileValue m \<and> tileValue m \<le> MAX_TILE_VALUE"

section \<open>Fixed-size arrays\<close>

text \<open>
  A C++ array is a list of its declared length. Reads and writes are checked: \<open>None\<close> is an
  access outside the array, which is undefined behaviour in the program.
\<close>

definition array_get :: "'a list \<Rightarrow> int \<Rightarrow> 'a option" where
  "array_get xs i = (if 0 \<le> i \<and> i < int (length xs) then Some (xs ! nat i) else None)"

definition array_set :: "'a list \<Rightarrow> int \<Rightarrow> 'a \<Rightarrow> 'a list option" where
  "array_set xs i v = (if 0 \<le> i \<and> i < int (length xs) then Some (xs[nat i := v]) else None)"

section \<open>Killer moves and history table (minimax.h)\<close>

definition MAX_DEPTH :: int where "MAX_DEPTH = 50"

record killer_moves =
  killer1 :: "move list"
  killer2 :: "move list"

definition KillerMoves_init :: killer_moves where
  "KillerMoves_init =
     \<lparr>killer1 = replicate (nat MAX_DEPTH) Move_default,
      killer2 = replicate (nat MAX_DEPTH) Move_default\<rparr>"

definition KillerMoves_update :: "killer_moves \<Rightarrow> int \<Rightarrow> move \<Rightarrow> killer_moves option" where
  "KillerMoves_update k ply m =
     (if ply < 0 \<or> ply \<ge> MAX_DEPTH then Some k
      else do {
        k1 \<leftarrow> array_get (killer1 k) ply;
        if \<not> (m = k1) then do {
          ks2 \<leftarrow> array_set (killer2 k) ply k1;
          ks1 \<leftarrow> array_set (killer1 k) ply m;
          Some \<lparr>killer1 = ks1, killer2 = ks2\<rparr>
        } else Some k
      })"

definition KillerMoves_isKiller :: "killer_moves \<Rightarrow> int \<Rightarrow> move \<Rightarrow> bool option" where
  "KillerMoves_isKiller k ply m =
     (if ply < 0 \<or> ply \<ge> MAX_DEPTH then Some False
      else do {
        k1 \<leftarrow> array_get (killer1 k) ply;
        if m = k1 then Some True
        else do { k2 \<leftarrow> array_get (killer2 k) ply; Some (m = k2) }
      })"

text \<open>The shape of the two arrays \<^verbatim>\<open>Move killer1[MAX_DEPTH], killer2[MAX_DEPTH]\<close>.\<close>

definition killers_shape :: "killer_moves \<Rightarrow> bool" where
  "killers_shape k \<longleftrightarrow>
     length (killer1 k) = nat MAX_DEPTH \<and> length (killer2 k) = nat MAX_DEPTH"

record history_table =
  scores :: "int list list"

definition HistoryTable_init :: history_table where
  "HistoryTable_init = \<lparr>scores = replicate (nat NUM_HEXES) (replicate 10 0)\<rparr>"

text \<open>
  \<^verbatim>\<open>scores[move.hexId][move.tileValue] += depth * depth\<close>. The counters are C++ \<^verbatim>\<open>int\<close>;
  they are unbounded integers here (nothing proved below depends on their overflow).
\<close>

definition HistoryTable_update :: "history_table \<Rightarrow> move \<Rightarrow> int \<Rightarrow> history_table option" where
  "HistoryTable_update h m depth =
     (if hexId m \<ge> 0 \<and> hexId m < NUM_HEXES \<and> tileValue m \<ge> 0 \<and> tileValue m < 10
      then do {
        row \<leftarrow> array_get (scores h) (hexId m);
        old \<leftarrow> array_get row (tileValue m);
        row' \<leftarrow> array_set row (tileValue m) (old + depth * depth);
        rows' \<leftarrow> array_set (scores h) (hexId m) row';
        Some \<lparr>scores = rows'\<rparr>
      }
      else Some h)"

definition HistoryTable_getScore :: "history_table \<Rightarrow> move \<Rightarrow> int option" where
  "HistoryTable_getScore h m =
     (if hexId m \<ge> 0 \<and> hexId m < NUM_HEXES \<and> tileValue m \<ge> 0 \<and> tileValue m < 10
      then do {
        row \<leftarrow> array_get (scores h) (hexId m);
        array_get row (tileValue m)
      }
      else Some 0)"

text \<open>The shape of \<^verbatim>\<open>int scores[NUM_HEXES][10]\<close>.\<close>

definition history_shape :: "history_table \<Rightarrow> bool" where
  "history_shape h \<longleftrightarrow>
     length (scores h) = nat NUM_HEXES \<and> list_all (\<lambda>row. length row = 10) (scores h)"

section \<open>The position (bitboard.cpp)\<close>

text \<open>
  The fields of \<^verbatim>\<open>HexukiBitboard\<close>, with the widths the source shows: the occupancy mask
  is saved in a \<^verbatim>\<open>uint32_t\<close>, a hex value in a \<^verbatim>\<open>uint8_t\<close>, the hash in a \<^verbatim>\<open>uint64_t\<close>;
  the bags are \<^verbatim>\<open>std::vector<int>\<close> and the side to move is assigned from \<^verbatim>\<open>std::stoi\<close>.
\<close>

record bitboard =
  hexOccupied :: "32 word"
  hexValues :: "8 word list"
  p1AvailableTiles :: "int list"
  p2AvailableTiles :: "int list"
  currentPlayer :: int
  symmetryStillPossible :: bool
  tilesAreIdentical :: bool
  zobristHash :: "64 word"

text \<open>
  The static tables of bitboard.h and the key functions of zobrist.h are not among the
  sources; the functions that use them take them as a parameter. A chain starter is a start
  hex with a direction \<open>(dr, dc)\<close>; an adjacency entry is the list of the first
  \<^verbatim>\<open>count\<close> neighbours; a scoring chain is the array of its declared length.
\<close>

record tables =
  HEX_POSITIONS :: "(int \<times> int) list"
  ROW_COL_TO_HEX :: "int list list"
  ADJACENT_HEXES :: "int list list"
  CHAIN_STARTERS :: "(int \<times> int \<times> int) list"
  P1_CHAINS :: "int list list"
  P2_CHAINS :: "int list list"
  CENTER_COLUMN_HEXES :: "int list"
  VERTICAL_MIRROR_PAIRS :: "int list"
  getTileHash :: "int \<Rightarrow> int \<Rightarrow> 64 word"
  getPlayerHash :: "int \<Rightarrow> 64 word"
  Zobrist_hash :: "bitboard \<Rightarrow> 64 word"

text \<open>
  Modelled from the spec: \<^verbatim>\<open>isHexOccupied\<close> is inlined in bitboard.h (absent); it reads
  bit \<open>hexId\<close> of the occupancy mask.
\<close>

definition isHexOccupied :: "bitboard \<Rightarrow> int \<Rightarrow> bool" where
  "isHexOccupied b h \<longleftrightarrow> 0 \<le> h \<and> bit (hexOccupied b) (nat h)"

definition isGameOver :: "bitboard \<Rightarrow> bool" where
  "isGameOver b \<longleftrightarrow>
     int (length (filter (isHexOccupied b) (map int [0..<19]))) \<ge> NUM_HEXES"

definition availableTiles :: "bitboard \<Rightarrow> int \<Rightarrow> int list" where
  "availableTiles b player =
     (if player = PLAYER_1 then p1AvailableTiles b else p2AvailableTiles b)"

definition isTileAvailable :: "bitboard \<Rightarrow> int \<Rightarrow> int \<Rightarrow> bool" where
  "isTileAvailable b player v \<longleftrightarrow>
     (if v < 1 \<or> v > MAX_TILE_VALUE then False else v \<in> set (availableTiles b player))"

subsection \<open>Adjacency\<close>

definition findHexAt :: "tables \<Rightarrow> int \<Rightarrow> int \<Rightarrow> int option" where
  "findHexAt T row col =
     (if row < 0 \<or> row \<ge> 9 \<or> col < 0 \<or> col \<ge> 5 then Some (- 1)
      else do { r \<leftarrow> array_get (ROW_COL_TO_HEX T) row; array_get r col })"

definition hasAdjacentOccupied :: "tables \<Rightarrow> bitboard \<Rightarrow> int \<Rightarrow> bool option" where
  "hasAdjacentOccupied T b h =
     (if h < 0 \<or> h \<ge> NUM_HEXES then Some False
      else do { adj \<leftarrow> array_get (ADJACENT_HEXES T) h; Some (list_ex (isHexOccupied b) adj) })"

subsection \<open>Chain walks\<close>

text \<open>
  Every chain loop of the source is \<^verbatim>\<open>while (currentHex >= 0) { body; currentHex =
  findHexAt(pos.row + dr, pos.col + dc); }\<close>. The hexes it visits depend on the tables
  only, so the walk is the list of the hexes visited, and a loop is its body folded over
  that list. A walk that reads outside a table or never ends is \<open>None\<close>.
\<close>

partial_function (option) chainWalk :: "tables \<Rightarrow> int \<times> int \<Rightarrow> int \<Rightarrow> int list option" where
  "chainWalk T dir currentHex =
     (if currentHex \<ge> 0 then do {
        pos \<leftarrow> array_get (HEX_POSITIONS T) currentHex;
        nextHex \<leftarrow> findHexAt T (fst pos + fst dir) (snd pos + snd dir);
        rest \<leftarrow> chainWalk T dir nextHex;
        Some (currentHex # rest)
      } else Some [])"

declare chainWalk.simps [code]

text \<open>The hexes visited from chain starter \<open>i\<close>.\<close>

definition starterLine :: "tables \<Rightarrow> int \<Rightarrow> int list option" where
  "starterLine T i = do {
     starter \<leftarrow> array_get (CHAIN_STARTERS T) i;
     chainWalk T (snd starter) (fst starter)
   }"

subsection \<open>Chain-length constraint\<close>

text \<open>
  The running state of \<^verbatim>\<open>checkChainLengthConstraint\<close>: \<open>maxLength\<close>,
  \<open>secondMaxLength\<close>, \<open>longestAffected\<close>, and per starter \<open>currentLength\<close> and
  \<open>chainContainsHexId\<close>.
\<close>

record chain_acc =
  maxLength :: int
  secondMaxLength :: int
  longestAffected :: int
  currentLength :: int
  chainContainsHexId :: bool

text \<open>A chain has ended: update the two maxima and the longest affected chain.\<close>

definition chainEnded :: "chain_acc \<Rightarrow> chain_acc" where
  "chainEnded a =
     (let a1 = (if currentLength a > maxLength a
                then a\<lparr>secondMaxLength := maxLength a, maxLength := currentLength a\<rparr>
                else if currentLength a > secondMaxLength a
                then a\<lparr>secondMaxLength := currentLength a\<rparr>
                else a)
      in if chainContainsHexId a1 \<and> currentLength a1 > longestAffected a1
         then a1\<lparr>longestAffected := currentLength a1\<rparr> else a1)"

text \<open>The body of the while loop at the hex \<open>cur\<close>.\<close>

definition chainStep :: "bitboard \<Rightarrow> int \<Rightarrow> int \<Rightarrow> chain_acc \<Rightarrow> chain_acc" where
  "chainStep b h cur a =
     (if isHexOccupied b cur
      then a\<lparr>currentLength := currentLength a + 1,
             chainContainsHexId := (if cur = h then True else chainContainsHexId a)\<rparr>
      else if currentLength a > 0
      then (chainEnded a)\<lparr>currentLength := 0, chainContainsHexId := False\<rparr>
      else a)"

text \<open>One turn of the loop over the starters: the walk, then the chain that reaches the edge.\<close>

definition chainStarter :: "bitboard \<Rightarrow> int \<Rightarrow> int list \<Rightarrow> chain_acc \<Rightarrow> chain_acc" where
  "chainStarter b h line a =
     (let a1 = fold (chainStep b h) line (a\<lparr>currentLength := 0, chainContainsHexId := False\<rparr>)
      in if currentLength a1 > 0 then chainEnded a1 else a1)"

fun chainStarters :: "tables \<Rightarrow> bitboard \<Rightarrow> int \<Rightarrow> int list \<Rightarrow> chain_acc \<Rightarrow> chain_acc option" where
  "chainStarters T b h [] a = Some a"
| "chainStarters T b h (i # is) a = do {
     line \<leftarrow> starterLine T i;
     chainStarters T b h is (chainStarter b h line a)
   }"

text \<open>
  \<^verbatim>\<open>checkChainLengthConstraint\<close> is a const member that writes the tile through a
  \<^verbatim>\<open>const_cast\<close> and restores it; the model returns the position it leaves with the answer.
\<close>

definition checkChainLengthConstraint :: "tables \<Rightarrow> bitboard \<Rightarrow> int \<Rightarrow> (bool \<times> bitboard) option" where
  "checkChainLengthConstraint T b h = do {
     savedValue \<leftarrow> array_get (hexValues b) h;
     let savedOccupied = hexOccupied b;
     placed \<leftarrow> array_set (hexValues b) h 1;
     let b1 = b\<lparr>hexOccupied := hexOccupied b OR push_bit (nat h) 1, hexValues := placed\<rparr>;
     a \<leftarrow> chainStarters T b1 h (map int [0..<15])
            \<lparr>maxLength = 0, secondMaxLength = 0, longestAffected = 0,
             currentLength = 0, chainContainsHexId = False\<rparr>;
     restored \<leftarrow> array_set (hexValues b1) h savedValue;
     let b2 = b1\<lparr>hexValues := restored, hexOccupied := savedOccupied\<rparr>;
     Some (\<not> (longestAffected a > secondMaxLength a + 1), b2)
   }"

subsection \<open>Move validation and generation\<close>

definition isMoveLegal :: "tables \<Rightarrow> bitboard \<Rightarrow> int \<Rightarrow> (bool \<times> bitboard) option" where
  "isMoveLegal T b h =
     (if isHexOccupied b h then Some (False, b)
      else do {
        adj \<leftarrow> hasAdjacentOccupied T b h;
        if \<not> adj then Some (False, b) else checkChainLengthConstraint T b h
      })"

definition isValidMove :: "tables \<Rightarrow> bitboard \<Rightarrow> move \<Rightarrow> (bool \<times> bitboard) option" where
  "isValidMove T b m =
     (if \<not> Move_isValid m then Some (False, b)
      else do {
        (legal, b') \<leftarrow> isMoveLegal T b (hexId m);
        if \<not> legal then Some (False, b')
        else Some (isTileAvailable b' (currentPlayer b') (tileValue m), b')
      })"

text \<open>The manual deduplication: a tile is appended when it is not yet among the unique ones.\<close>

definition uniqueTileValues :: "int list \<Rightarrow> int list" where
  "uniqueTileValues tiles = fold (\<lambda>tile u. if tile \<in> set u then u else u @ [tile]) tiles []"

fun validMovesLoop ::
  "tables \<Rightarrow> int list \<Rightarrow> int list \<Rightarrow> bitboard \<Rightarrow> move list \<Rightarrow> (move list \<times> bitboard) option" where
  "validMovesLoop T u [] b moves = Some (moves, b)"
| "validMovesLoop T u (h # hs) b moves =
     (if isHexOccupied b h then validMovesLoop T u hs b moves
      else do {
        (legal, b') \<leftarrow> isMoveLegal T b h;
        validMovesLoop T u hs b' (if legal then moves @ map (Move h) u else moves)
      })"

definition getValidMoves :: "tables \<Rightarrow> bitboard \<Rightarrow> (move list \<times> bitboard) option" where
  "getValidMoves T b =
     validMovesLoop T (uniqueTileValues (availableTiles b (currentPlayer b)))
       (map int [0..<19]) b []"

subsection \<open>Move execution\<close>

definition updateZobristHash :: "tables \<Rightarrow> bitboard \<Rightarrow> move \<Rightarrow> bitboard" where
  "updateZobristHash T b m =
     b\<lparr>zobristHash :=
         (zobristHash b XOR getTileHash T (hexId m) (tileValue m))
           XOR getPlayerHash T (currentPlayer b)\<rparr>"

definition switchPlayer :: "int \<Rightarrow> int" where
  "switchPlayer p = (if p = PLAYER_1 then PLAYER_2 else PLAYER_1)"

text \<open>
  \<open>None\<close> is a write outside \<^verbatim>\<open>hexValues\<close> (a hex id outside the board): undefined
  behaviour in the program. The tile value is stored in a \<^verbatim>\<open>uint8_t\<close>.
\<close>

definition makeMove :: "tables \<Rightarrow> bitboard \<Rightarrow> move \<Rightarrow> bitboard option" where
  "makeMove T b m = do {
     vs \<leftarrow> array_set (hexValues b) (hexId m) (word_of_int (tileValue m));
     let b1 = b\<lparr>hexOccupied := hexOccupied b OR push_bit (nat (hexId m)) 1, hexValues := vs\<rparr>;
     let b2 = (if currentPlayer b1 = PLAYER_1
               then b1\<lparr>p1AvailableTiles := remove1 (tileValue m) (p1AvailableTiles b1)\<rparr>
               else b1\<lparr>p2AvailableTiles := remove1 (tileValue m) (p2AvailableTiles b1)\<rparr>);
     let b3 = updateZobristHash T b2 m;
     Some (b3\<lparr>currentPlayer := switchPlayer (currentPlayer b3)\<rparr>)
   }"

definition unmakeMove :: "tables \<Rightarrow> bitboard \<Rightarrow> move \<Rightarrow> bitboard option" where
  "unmakeMove T b m = do {
     let b1 = b\<lparr>currentPlayer := switchPlayer (currentPlayer b)\<rparr>;
     let b2 = updateZobristHash T b1 m;
     let b3 = (if currentPlayer b2 = PLAYER_1
               then b2\<lparr>p1AvailableTiles := p1AvailableTiles b2 @ [tileValue m]\<rparr>
               else b2\<lparr>p2AvailableTiles := p2AvailableTiles b2 @ [tileValue m]\<rparr>);
     vs \<leftarrow> array_set (hexValues b3) (hexId m) 0;
     Some (b3\<lparr>hexOccupied := hexOccupied b3 AND NOT (push_bit (nat (hexId m)) 1), hexValues := vs\<rparr>)
   }"

subsection \<open>Scoring\<close>

text \<open>
  The product over the occupied hexes of a scoring chain, up to the first \<open>-1\<close> padding.
  Scores are C++ \<^verbatim>\<open>int\<close>; they are unbounded integers here.
\<close>

fun calculateChainScore :: "bitboard \<Rightarrow> int list \<Rightarrow> int \<Rightarrow> int option" where
  "calculateChainScore b [] product = Some product"
| "calculateChainScore b (h # hs) product =
     (if h < 0 then Some product
      else if isHexOccupied b h
      then do { v \<leftarrow> array_get (hexValues b) h; calculateChainScore b hs (product * uint v) }
      else calculateChainScore b hs product)"

fun calculateChainScores :: "bitboard \<Rightarrow> int list list \<Rightarrow> int \<Rightarrow> int option" where
  "calculateChainScores b [] totalScore = Some totalScore"
| "calculateChainScores b (c # cs) totalScore = do {
     chainScore \<leftarrow> calculateChainScore b c 1;
     calculateChainScores b cs (totalScore + chainScore)
   }"

definition getScore :: "tables \<Rightarrow> bitboard \<Rightarrow> int \<Rightarrow> int option" where
  "getScore T b player =
     (if player = PLAYER_1 then calculateChainScores b (P1_CHAINS T) 0
      else calculateChainScores b (P2_CHAINS T) 0)"

subsection \<open>Set-up\<close>

text \<open>\<^verbatim>\<open>tilesMatch\<close>: the same values in any order.\<close>

definition tilesMatch :: "int list \<Rightarrow> int list \<Rightarrow> bool" where
  "tilesMatch tiles1 tiles2 \<longleftrightarrow>
     (if length tiles1 \<noteq> length tiles2 then False else sort tiles1 = sort tiles2)"

definition recalcHash :: "tables \<Rightarrow> bitboard \<Rightarrow> bitboard" where
  "recalcHash T b = b\<lparr>zobristHash := Zobrist_hash T b\<rparr>"

definition reset :: "tables \<Rightarrow> bitboard \<Rightarrow> bitboard option" where
  "reset T b = do {
     let b1 = b\<lparr>hexOccupied := 0, hexValues := replicate (nat NUM_HEXES) 0,
                p1AvailableTiles := [1, 2, 3, 4, 5, 6, 7, 8, 9],
                p2AvailableTiles := [1, 2, 3, 4, 5, 6, 7, 8, 9]\<rparr>;
     vs \<leftarrow> array_set (hexValues b1) CENTER_HEX (word_of_int STARTING_TILE);
     let b2 = b1\<lparr>hexOccupied := push_bit (nat CENTER_HEX) 1, hexValues := vs,
                 currentPlayer := PLAYER_1, symmetryStillPossible := True\<rparr>;
     let b3 = b2\<lparr>tilesAreIdentical := tilesMatch (p1AvailableTiles b2) (p2AvailableTiles b2)\<rparr>;
     Some (recalcHash T b3)
   }"

text \<open>The constructor: the member initialisers, then \<^verbatim>\<open>reset()\<close>.\<close>

definition HexukiBitboard :: "tables \<Rightarrow> bitboard option" where
  "HexukiBitboard T =
     reset T \<lparr>hexOccupied = 0, hexValues = replicate (nat NUM_HEXES) 0,
              p1AvailableTiles = [], p2AvailableTiles = [], currentPlayer = PLAYER_1,
              symmetryStillPossible = True, tilesAreIdentical = True, zobristHash = 0\<rparr>"

definition setHexValue :: "tables \<Rightarrow> bitboard \<Rightarrow> int \<Rightarrow> int \<Rightarrow> bitboard" where
  "setHexValue T b h v =
     (if h < 0 \<or> h \<ge> NUM_HEXES then b
      else recalcHash T
             (b\<lparr>hexOccupied := hexOccupied b OR push_bit (nat h) 1,
                hexValues := (hexValues b)[nat h := word_of_int v]\<rparr>))"

definition removeHexValue :: "tables \<Rightarrow> bitboard \<Rightarrow> int \<Rightarrow> bitboard" where
  "removeHexValue T b h =
     (if h < 0 \<or> h \<ge> NUM_HEXES then b
      else recalcHash T
             (b\<lparr>hexOccupied := hexOccupied b AND NOT (push_bit (nat h) 1),
                hexValues := (hexValues b)[nat h := 0]\<rparr>))"

definition setAvailableTiles :: "bitboard \<Rightarrow> int \<Rightarrow> int list \<Rightarrow> bitboard" where
  "setAvailableTiles b player tiles =
     (if player = PLAYER_1 then b\<lparr>p1AvailableTiles := tiles\<rparr>
      else if player = PLAYER_2 then b\<lparr>p2AvailableTiles := tiles\<rparr>
      else b)"

definition clearBoard :: "tables \<Rightarrow> bitboard \<Rightarrow> bitboard" where
  "clearBoard T b =
     recalcHash T (b\<lparr>hexOccupied := 0, hexValues := replicate (nat NUM_HEXES) 0\<rparr>)"

section \<open>The chain rule in the words of the specification\<close>

text \<open>
  A chain is a maximal run of consecutively occupied hexes along a line: a run starts at an
  occupied hex and takes the occupied hexes that follow it.
\<close>

function maximalRuns :: "('a \<Rightarrow> bool) \<Rightarrow> 'a list \<Rightarrow> 'a list list" where
  "maximalRuns P [] = []"
| "maximalRuns P (x # xs) =
     (if P x then takeWhile P (x # xs) # maximalRuns P (dropWhile P xs)
      else maximalRuns P xs)"
  by pat_completeness auto
termination
  by (relation "measure (\<lambda>(P, xs). length xs)") (auto simp: length_dropWhile_le less_Suc_eq_le)

definition maxOf :: "int list \<Rightarrow> int" where
  "maxOf ls = fold max ls 0"

text \<open>The second-largest length: the largest that is left when one largest is taken away.\<close>

definition secondLargest :: "int list \<Rightarrow> int" where
  "secondLargest ls = maxOf (remove1 (maxOf ls) ls)"

text \<open>The chains of the board once a tile stands on \<open>h\<close>, over the given lines.\<close>

definition chainsAfterPlacing :: "int list list \<Rightarrow> bitboard \<Rightarrow> int \<Rightarrow> int list list" where
  "chainsAfterPlacing lines b h =
     concat (map (maximalRuns (\<lambda>x. x = h \<or> isHexOccupied b x)) lines)"

text \<open>
  \<open>L\<close> is the length of the longest chain that contains \<open>h\<close>, \<open>S\<close> the second-largest
  chain length of the whole board; the placement is chain-legal when \<open>L \<le> S + 1\<close>.
\<close>

definition chainLegal :: "int list list \<Rightarrow> bitboard \<Rightarrow> int \<Rightarrow> bool" where
  "chainLegal lines b h \<longleftrightarrow>
     (let cs = chainsAfterPlacing lines b h;
          L = maxOf (map (\<lambda>c. int (length c)) (filter (\<lambda>c. h \<in> set c) cs));
          S = secondLargest (map (\<lambda>c. int (length c)) cs)
      in L \<le> S + 1)"

text \<open>The walks of the 15 chain starters all end, and visit these lines.\<close>

definition starterLinesAre :: "tables \<Rightarrow> int list list \<Rightarrow> bool" where
  "starterLinesAre T lines \<longleftrightarrow> map (starterLine T) (map int [0..<15]) = map Some lines"

subsection \<open>Auxiliary notions for the proof of the chain rule\<close>

text \<open>
  The three results kept across chains, and how one finished chain of length \<open>l\<close> that
  contains \<open>h\<close> or not changes them.
\<close>

definition summary :: "chain_acc \<Rightarrow> int \<times> int \<times> int" where
  "summary a = (maxLength a, secondMaxLength a, longestAffected a)"

definition reg2 :: "int \<Rightarrow> int \<times> int \<Rightarrow> int \<times> int" where
  "reg2 l ms = (if l > fst ms then (l, fst ms) else if l > snd ms then (fst ms, l) else ms)"

definition reg :: "int \<times> bool \<Rightarrow> int \<times> int \<times> int \<Rightarrow> int \<times> int \<times> int" where
  "reg lc t =
     (case t of (m, s, l) \<Rightarrow>
        (fst (reg2 (fst lc) (m, s)), snd (reg2 (fst lc) (m, s)),
         if snd lc \<and> fst lc > l then fst lc else l))"

definition chainInfo :: "int \<Rightarrow> int list \<Rightarrow> int \<times> bool" where
  "chainInfo h c = (int (length c), h \<in> set c)"

definition chainFinish :: "chain_acc \<Rightarrow> chain_acc" where
  "chainFinish a = (if currentLength a > 0 then chainEnded a else a)"

section \<open>The invariants of a position\<close>

text \<open>
  The data model of the specification: the side to move is one of the two players, and a
  hex whose occupancy bit is clear holds the value 0.
\<close>

definition sideIsPlayer :: "bitboard \<Rightarrow> bool" where
  "sideIsPlayer b \<longleftrightarrow> currentPlayer b = PLAYER_1 \<or> currentPlayer b = PLAYER_2"

definition emptyHexesHoldZero :: "bitboard \<Rightarrow> bool" where
  "emptyHexesHoldZero b \<longleftrightarrow>
     list_all (\<lambda>i. bit (hexOccupied b) i \<or> hexValues b ! i = 0) [0..<length (hexValues b)]"

section \<open>Legal hexes, in the words of the specification\<close>

text \<open>
  A hex on which the mover may place a tile: a hex of the board that is empty, has at least
  one occupied neighbour in the adjacency table, and is chain-legal.
\<close>

definition legalHex :: "tables \<Rightarrow> int list list \<Rightarrow> bitboard \<Rightarrow> int \<Rightarrow> bool" where
  "legalHex T lines b h \<longleftrightarrow>
     0 \<le> h \<and> h < NUM_HEXES \<and> \<not> isHexOccupied b h
     \<and> list_ex (isHexOccupied b) (ADJACENT_HEXES T ! nat h)
     \<and> chainLegal lines b h"

section \<open>The search (minimax.cpp)\<close>

text \<open>\<^verbatim>\<open>INF\<close> of the source (the name is taken in Isabelle).\<close>

definition INF_score :: int where "INF_score = 1000000"
definition MATE_SCORE :: int where "MATE_SCORE = 900000"
definition TIMEOUT_CHECK_INTERVAL :: int where "TIMEOUT_CHECK_INTERVAL = 1000"

subsection \<open>Transposition table\<close>

datatype tt_flag = EXACT | LOWER_BOUND | UPPER_BOUND

record tt_entry =
  tt_score :: int
  tt_depth :: int
  tt_flag :: tt_flag
  tt_bestMove :: move

definition TTEntry :: "int \<Rightarrow> int \<Rightarrow> tt_flag \<Rightarrow> move \<Rightarrow> tt_entry" where
  "TTEntry s d f m = \<lparr>tt_score = s, tt_depth = d, tt_flag = f, tt_bestMove = m\<rparr>"

text \<open>
  The \<^verbatim>\<open>unordered_map\<close> is an association list with one pair for a key; \<open>hits\<close> and
  \<open>misses\<close> count the probes. The constructor computes \<^verbatim>\<open>maxSize\<close> from the size in MB
  and hands it to \<^verbatim>\<open>table.reserve\<close>; no other code reads it. Memory is not modelled: the
  table is the one of a run in which that reservation succeeded. For a size that the
  allocator refuses, \<^verbatim>\<open>reserve\<close> throws in the constructor, before \<^verbatim>\<open>findBestMove\<close>
  generates a move, and nothing below describes such a run.
\<close>

record transposition_table =
  tt_table :: "(64 word \<times> tt_entry) list"
  hits :: nat
  misses :: nat

definition TranspositionTable :: transposition_table where
  "TranspositionTable = \<lparr>tt_table = [], hits = 0, misses = 0\<rparr>"

definition tt_put :: "(64 word \<times> tt_entry) list \<Rightarrow> 64 word \<Rightarrow> tt_entry \<Rightarrow> (64 word \<times> tt_entry) list" where
  "tt_put tbl k e = (k, e) # filter (\<lambda>p. fst p \<noteq> k) tbl"

definition TT_store :: "transposition_table \<Rightarrow> 64 word \<Rightarrow> tt_entry \<Rightarrow> transposition_table" where
  "TT_store t k e =
     (case map_of (tt_table t) k of
        Some old \<Rightarrow> if tt_depth e \<ge> tt_depth old then t\<lparr>tt_table := tt_put (tt_table t) k e\<rparr> else t
      | None \<Rightarrow> t\<lparr>tt_table := tt_put (tt_table t) k e\<rparr>)"

definition TT_probe :: "transposition_table \<Rightarrow> 64 word \<Rightarrow> tt_entry option \<times> transposition_table" where
  "TT_probe t k =
     (case map_of (tt_table t) k of
        Some e \<Rightarrow> (Some e, t\<lparr>hits := hits t + 1\<rparr>)
      | None \<Rightarrow> (None, t\<lparr>misses := misses t + 1\<rparr>))"

subsection \<open>Evaluation and move ordering\<close>

definition evaluate :: "tables \<Rightarrow> bitboard \<Rightarrow> int option" where
  "evaluate T b = do {
     p1Score \<leftarrow> getScore T b PLAYER_1;
     p2Score \<leftarrow> getScore T b PLAYER_2;
     Some (if currentPlayer b = PLAYER_1 then p1Score - p2Score else p2Score - p1Score)
   }"

definition moveScore ::
  "tt_entry option \<Rightarrow> killer_moves \<Rightarrow> history_table \<Rightarrow> int \<Rightarrow> move \<Rightarrow> int option" where
  "moveScore ttEntry k h ply m =
     (if (case ttEntry of Some e \<Rightarrow> m = tt_bestMove e | None \<Rightarrow> False) then Some 10000000
      else do {
        isK \<leftarrow> KillerMoves_isKiller k ply m;
        if isK then Some (1000000 + tileValue m * 10)
        else do {
          hs \<leftarrow> HistoryTable_getScore h m;
          let s1 = hs + tileValue m * 100;
          let s2 = (if hexId m = 9 then s1 + 50
                    else if hexId m = 4 \<or> hexId m = 6 \<or> hexId m = 7 \<or> hexId m = 11 \<or> hexId m = 12
                    then s1 + 30 else s1);
          Some (if hexId m = 0 \<or> hexId m = 2 \<or> hexId m = 16 \<or> hexId m = 18 then s2 + 20 else s2)
        }
      })"

text \<open>
  \<^verbatim>\<open>std::sort\<close> leaves the order of moves of equal score open; the model sorts
  stably (insertion sort by descending score). Its result is a rearrangement of the moves
  in descending score (lemma \<open>orderMoves_sorted\<close>), so one of the orders that
  \<^verbatim>\<open>std::sort\<close> may give, and the only one when no two moves have the same score; where
  scores tie, the source may search the tied moves in another order than the model.
\<close>

definition orderMoves ::
  "move list \<Rightarrow> tt_entry option \<Rightarrow> killer_moves \<Rightarrow> history_table \<Rightarrow> int \<Rightarrow> move list option" where
  "orderMoves moves ttEntry k h ply = do {
     ss \<leftarrow> those (map (moveScore ttEntry k h ply) moves);
     let moveScores = zip ss [0..<length moves];
     let sorted = sort_key (\<lambda>p. - fst p) moveScores;
     Some (map (\<lambda>p. moves ! snd p) sorted)
   }"

subsection \<open>Alpha-beta\<close>

text \<open>
  What a call of \<^verbatim>\<open>alphaBeta\<close> reads and writes through its reference parameters, and the
  clock. The wall clock is a parameter \<open>clk\<close>: \<open>clk k\<close> is the number of milliseconds
  since \<^verbatim>\<open>startTime\<close> that the \<open>k\<close>-th reading of \<^verbatim>\<open>steady_clock::now()\<close> shows, and
  the state counts the readings taken.
\<close>

record search_state =
  s_board :: bitboard
  s_tt :: transposition_table
  s_nodes :: int
  s_killers :: killer_moves
  s_history :: history_table
  s_reads :: nat

record ab_loop =
  ab_alpha :: int
  ab_bestScore :: int
  ab_bestMove :: move
  ab_flag :: tt_flag

text \<open>
  \<^verbatim>\<open>alphaBeta\<close> is cut at its recursive call into three parts. \<open>alphaBetaEnter\<close> is the
  function up to the loop over the moves: it returns at once (\<open>Leaf\<close>: the deadline, a leaf,
  a table cutoff, no move) or reaches the loop (\<open>Node\<close>: the hash, beta, the ordered moves,
  the loop variables and the state). \<open>alphaBetaChild\<close> is the loop body after the recursive
  call returned \<open>r\<close>. \<open>alphaBetaLeave\<close> is the store after the loop.
\<close>

datatype ab_entry =
  Leaf int search_state
| Node "64 word" int "move list" ab_loop search_state

definition alphaBetaEnter ::
  "tables \<Rightarrow> (nat \<Rightarrow> int) \<Rightarrow> int \<Rightarrow> int \<Rightarrow> int \<Rightarrow> int \<Rightarrow> int \<Rightarrow> search_state \<Rightarrow> ab_entry option" where
  "alphaBetaEnter T clk timeLimitMs d alpha beta ply st =
     (let st1 = st\<lparr>s_nodes := s_nodes st + 1\<rparr>;
          check = (s_nodes st1 mod TIMEOUT_CHECK_INTERVAL = 0);
          st2 = (if check then st1\<lparr>s_reads := s_reads st1 + 1\<rparr> else st1)
      in if check \<and> clk (s_reads st1) \<ge> timeLimitMs then Some (Leaf 0 st2)
         else if d = 0 \<or> isGameOver (s_board st2)
         then map_option (\<lambda>e. Leaf e st2) (evaluate T (s_board st2))
         else
           let hash = zobristHash (s_board st2);
               found = fst (TT_probe (s_tt st2) hash);
               st3 = st2\<lparr>s_tt := snd (TT_probe (s_tt st2) hash)\<rparr>;
               usable = (case found of Some e \<Rightarrow> tt_depth e \<ge> d | None \<Rightarrow> False);
               e = (case found of Some e \<Rightarrow> e | None \<Rightarrow> TTEntry 0 0 EXACT Move_default);
               alpha1 = (if usable \<and> tt_flag e = LOWER_BOUND then max alpha (tt_score e) else alpha);
               beta1 = (if usable \<and> tt_flag e = UPPER_BOUND then min beta (tt_score e) else beta)
           in if usable \<and> tt_flag e = EXACT then Some (Leaf (tt_score e) st3)
              else if usable \<and> alpha1 \<ge> beta1 then Some (Leaf (tt_score e) st3)
              else do {
                (moves, b1) \<leftarrow> getValidMoves T (s_board st3);
                let st4 = st3\<lparr>s_board := b1\<rparr>;
                if moves = [] then map_option (\<lambda>e. Leaf e st4) (evaluate T (s_board st4))
                else do {
                  ordered \<leftarrow> orderMoves moves (if usable then Some e else None)
                               (s_killers st4) (s_history st4) ply;
                  Some (Node hash beta1 ordered
                         \<lparr>ab_alpha = alpha1, ab_bestScore = - INF_score, ab_bestMove = hd ordered,
                          ab_flag = UPPER_BOUND\<rparr> st4)
                }
              })"

datatype ab_step =
  Cutoff ab_loop search_state
| Next ab_loop search_state

definition alphaBetaChild ::
  "tables \<Rightarrow> int \<Rightarrow> int \<Rightarrow> int \<Rightarrow> move \<Rightarrow> ab_loop \<Rightarrow> int \<Rightarrow> search_state \<Rightarrow> ab_step option" where
  "alphaBetaChild T d beta ply m l r st1 = do {
     b2 \<leftarrow> unmakeMove T (s_board st1) m;
     let st2 = st1\<lparr>s_board := b2\<rparr>;
     let sc = - r;
     let l1 = (if sc > ab_bestScore l
               then (if sc > ab_alpha l
                     then l\<lparr>ab_bestScore := sc, ab_bestMove := m, ab_alpha := sc, ab_flag := EXACT\<rparr>
                     else l\<lparr>ab_bestScore := sc, ab_bestMove := m\<rparr>)
               else l);
     if ab_alpha l1 \<ge> beta then do {
       k \<leftarrow> KillerMoves_update (s_killers st2) ply (ab_bestMove l1);
       h \<leftarrow> HistoryTable_update (s_history st2) (ab_bestMove l1) d;
       Some (Cutoff (l1\<lparr>ab_flag := LOWER_BOUND\<rparr>) (st2\<lparr>s_killers := k, s_history := h\<rparr>))
     }
     else Some (Next l1 st2)
   }"

definition alphaBetaLeave :: "int \<Rightarrow> 64 word \<Rightarrow> ab_loop \<times> search_state \<Rightarrow> int \<times> search_state" where
  "alphaBetaLeave d hash ls =
     (ab_bestScore (fst ls),
      (snd ls)\<lparr>s_tt := TT_store (s_tt (snd ls)) hash
                          (TTEntry (ab_bestScore (fst ls)) d (ab_flag (fst ls)) (ab_bestMove (fst ls)))\<rparr>)"

text \<open>
  The recursion of \<^verbatim>\<open>alphaBeta\<close> is bounded by the fuel \<open>n\<close>: \<open>None\<close> when it runs out.
  \<^verbatim>\<open>findBestMove\<close> gives it more fuel than the board has hexes: each nested call follows
  a \<^verbatim>\<open>makeMove\<close> on an empty hex, and a full board is a leaf.
\<close>

fun alphaBeta ::
  "nat \<Rightarrow> tables \<Rightarrow> (nat \<Rightarrow> int) \<Rightarrow> int \<Rightarrow> int \<Rightarrow> int \<Rightarrow> int \<Rightarrow> int \<Rightarrow> search_state
     \<Rightarrow> (int \<times> search_state) option"
and alphaBetaMoves ::
  "nat \<Rightarrow> tables \<Rightarrow> (nat \<Rightarrow> int) \<Rightarrow> int \<Rightarrow> int \<Rightarrow> int \<Rightarrow> int \<Rightarrow> move list \<Rightarrow> ab_loop
     \<Rightarrow> search_state \<Rightarrow> (ab_loop \<times> search_state) option"
where
  "alphaBeta 0 T clk timeLimitMs d alpha beta ply st = None"
| "alphaBeta (Suc n) T clk timeLimitMs d alpha beta ply st =
     (case alphaBetaEnter T clk timeLimitMs d alpha beta ply st of
        None \<Rightarrow> None
      | Some (Leaf r st') \<Rightarrow> Some (r, st')
      | Some (Node hash beta1 ordered l st') \<Rightarrow>
          map_option (alphaBetaLeave d hash)
            (alphaBetaMoves n T clk timeLimitMs d beta1 ply ordered l st'))"
| "alphaBetaMoves n T clk timeLimitMs d beta ply [] l st = Some (l, st)"
| "alphaBetaMoves n T clk timeLimitMs d beta ply (m # ms) l st =
     (case makeMove T (s_board st) m of
        None \<Rightarrow> None
      | Some b1 \<Rightarrow>
          (case alphaBeta n T clk timeLimitMs (d - 1) (- beta) (- ab_alpha l) (ply + 1)
                  (st\<lparr>s_board := b1\<rparr>) of
             None \<Rightarrow> None
           | Some (r, st1) \<Rightarrow>
               (case alphaBetaChild T d beta ply m l r st1 of
                  None \<Rightarrow> None
                | Some (Cutoff l1 st2) \<Rightarrow> Some (l1, st2)
                | Some (Next l1 st2) \<Rightarrow> alphaBetaMoves n T clk timeLimitMs d beta ply ms l1 st2)))"

subsection \<open>The driver\<close>

record search_config =
  maxDepth :: int
  timeLimitMs :: int
  useIterativeDeepening :: bool
  useMoveOrdering :: bool
  useTranspositionTable :: bool
  ttSizeMB :: nat
  verbose :: bool

text \<open>
  \<^verbatim>\<open>SearchResult\<close> without \<^verbatim>\<open>timeMs\<close>, a floating-point duration that no other field
  depends on. The verbose line printed after a depth is not modelled either.
\<close>

record search_result =
  bestMove :: move
  score :: int
  nodesSearched :: int
  depth :: int
  timeout :: bool
  ttHits :: nat
  ttMisses :: nat

definition SearchResult :: search_result where
  "SearchResult =
     \<lparr>bestMove = Move_default, score = 0, nodesSearched = 0, depth = 0, timeout = False,
      ttHits = 0, ttMisses = 0\<rparr>"

definition searchFuel :: nat where
  "searchFuel = 20"

text \<open>
  A root move: \<^verbatim>\<open>makeMove\<close>, \<^verbatim>\<open>-alphaBeta(board, d - 1, -beta, -alpha, ..., ply)\<close> with
  \<open>beta = INF\<close>, \<^verbatim>\<open>unmakeMove\<close>. The root loops call it with ply 1, the branch of the
  single legal move with \<open>alpha = -INF\<close> and ply 0.
\<close>

definition rootSearchMove ::
  "tables \<Rightarrow> (nat \<Rightarrow> int) \<Rightarrow> int \<Rightarrow> int \<Rightarrow> int \<Rightarrow> int \<Rightarrow> move \<Rightarrow> search_state
     \<Rightarrow> (int \<times> search_state) option" where
  "rootSearchMove T clk limit d alpha ply m st = do {
     b1 \<leftarrow> makeMove T (s_board st) m;
     (r, st1) \<leftarrow> alphaBeta searchFuel T clk limit (d - 1) (- INF_score) (- alpha) ply
                  (st\<lparr>s_board := b1\<rparr>);
     b2 \<leftarrow> unmakeMove T (s_board st1) m;
     Some (- r, st1\<lparr>s_board := b2\<rparr>)
   }"

record root_loop =
  rl_alpha :: int
  rl_bestScore :: int
  rl_bestMove :: move

definition rootUpdate :: "root_loop \<Rightarrow> int \<Rightarrow> move \<Rightarrow> root_loop" where
  "rootUpdate l sc m =
     (if sc > rl_bestScore l
      then (if sc > rl_alpha l
            then l\<lparr>rl_bestScore := sc, rl_bestMove := m, rl_alpha := sc\<rparr>
            else l\<lparr>rl_bestScore := sc, rl_bestMove := m\<rparr>)
      else l)"

text \<open>
  The loop over the root moves at one depth of the iterative deepening. After every root
  move the clock is read; at or past the limit the depth is abandoned (\<open>Aborted\<close>).
\<close>

datatype root_outcome =
  Aborted search_state
| Completed root_loop search_state

fun rootMovesID ::
  "tables \<Rightarrow> (nat \<Rightarrow> int) \<Rightarrow> int \<Rightarrow> int \<Rightarrow> move list \<Rightarrow> root_loop \<Rightarrow> search_state
     \<Rightarrow> root_outcome option" where
  "rootMovesID T clk limit d [] l st = Some (Completed l st)"
| "rootMovesID T clk limit d (m # ms) l st =
     (case rootSearchMove T clk limit d (rl_alpha l) 1 m st of
        None \<Rightarrow> None
      | Some (sc, st1) \<Rightarrow>
          if clk (s_reads st1) \<ge> limit then Some (Aborted (st1\<lparr>s_reads := s_reads st1 + 1\<rparr>))
          else rootMovesID T clk limit d ms (rootUpdate l sc m) (st1\<lparr>s_reads := s_reads st1 + 1\<rparr>))"

text \<open>The loop over the root moves of the single-depth search: no clock.\<close>

fun rootMovesSingle ::
  "tables \<Rightarrow> (nat \<Rightarrow> int) \<Rightarrow> int \<Rightarrow> int \<Rightarrow> move list \<Rightarrow> root_loop \<Rightarrow> search_state
     \<Rightarrow> (root_loop \<times> search_state) option" where
  "rootMovesSingle T clk limit d [] l st = Some (l, st)"
| "rootMovesSingle T clk limit d (m # ms) l st =
     (case rootSearchMove T clk limit d (rl_alpha l) 1 m st of
        None \<Rightarrow> None
      | Some (sc, st1) \<Rightarrow> rootMovesSingle T clk limit d ms (rootUpdate l sc m) st1)"

text \<open>
  The variables of \<^verbatim>\<open>findBestMove\<close> that live across the depths: the root move list (which
  \<^verbatim>\<open>orderMoves\<close> rewrites in place), the committed best move and score, the result under
  construction, and the search state.
\<close>

record id_vars =
  id_moves :: "move list"
  id_bestMove :: move
  id_bestScore :: int
  id_result :: search_result
  id_state :: search_state

text \<open>
  One depth of the iterative deepening: the root moves are ordered when \<open>d > 1\<close>, then
  searched. It returns the move list as ordered, and the outcome.
\<close>

definition idIteration ::
  "tables \<Rightarrow> (nat \<Rightarrow> int) \<Rightarrow> search_config \<Rightarrow> int \<Rightarrow> id_vars \<Rightarrow> (move list \<times> root_outcome) option" where
  "idIteration T clk cfg d v = do {
     let st = (id_state v)\<lparr>s_nodes := 0\<rparr>;
     ms \<leftarrow> (if d > 1 then orderMoves (id_moves v) None (s_killers st) (s_history st) 0
            else Some (id_moves v));
     out \<leftarrow> rootMovesID T clk (timeLimitMs cfg) d ms
              \<lparr>rl_alpha = - INF_score, rl_bestScore = - INF_score, rl_bestMove = Move_default\<rparr> st;
     Some (ms, out)
   }"

text \<open>What a completed depth commits.\<close>

definition idCommit :: "id_vars \<Rightarrow> int \<Rightarrow> move list \<Rightarrow> root_loop \<Rightarrow> search_state \<Rightarrow> id_vars" where
  "idCommit v d ms l st =
     v\<lparr>id_moves := ms, id_bestMove := rl_bestMove l, id_bestScore := rl_bestScore l,
       id_result := (id_result v)\<lparr>depth := d,
                       nodesSearched := nodesSearched (id_result v) + s_nodes st\<rparr>,
       id_state := st\<rparr>"

text \<open>What an abandoned depth leaves: the time-out flag, and nothing of its search.\<close>

definition idAbort :: "id_vars \<Rightarrow> move list \<Rightarrow> search_state \<Rightarrow> id_vars" where
  "idAbort v ms st =
     v\<lparr>id_moves := ms, id_result := (id_result v)\<lparr>timeout := True\<rparr>, id_state := st\<rparr>"

text \<open>
  \<^verbatim>\<open>for (depth = 1; depth <= maxDepth; depth++)\<close>: \<open>k\<close> counts the depths that are left.
\<close>

fun idLoop ::
  "nat \<Rightarrow> tables \<Rightarrow> (nat \<Rightarrow> int) \<Rightarrow> search_config \<Rightarrow> int \<Rightarrow> id_vars \<Rightarrow> id_vars option" where
  "idLoop 0 T clk cfg d v = Some v"
| "idLoop (Suc k) T clk cfg d v =
     (case idIteration T clk cfg d v of
        None \<Rightarrow> None
      | Some (ms, Aborted st) \<Rightarrow> Some (idAbort v ms st)
      | Some (ms, Completed l st) \<Rightarrow>
          if \<bar>rl_bestScore l\<bar> > MATE_SCORE - 100 then Some (idCommit v d ms l st)
          else idLoop k T clk cfg (d + 1) (idCommit v d ms l st))"

definition searchStart :: "bitboard \<Rightarrow> search_state" where
  "searchStart b =
     \<lparr>s_board = b, s_tt = TranspositionTable, s_nodes = 0, s_killers = KillerMoves_init,
      s_history = HistoryTable_init, s_reads = 0\<rparr>"

definition idStart :: "move list \<Rightarrow> bitboard \<Rightarrow> id_vars" where
  "idStart moves b =
     \<lparr>id_moves = moves, id_bestMove = hd moves, id_bestScore = - INF_score,
      id_result = SearchResult, id_state = searchStart b\<rparr>"

definition idFinish :: "id_vars \<Rightarrow> search_result \<times> bitboard" where
  "idFinish v =
     ((id_result v)\<lparr>bestMove := id_bestMove v, score := id_bestScore v,
                    ttHits := hits (s_tt (id_state v)), ttMisses := misses (s_tt (id_state v))\<rparr>,
      s_board (id_state v))"

definition singleDepthSearch ::
  "tables \<Rightarrow> (nat \<Rightarrow> int) \<Rightarrow> search_config \<Rightarrow> move list \<Rightarrow> bitboard
     \<Rightarrow> (search_result \<times> bitboard) option" where
  "singleDepthSearch T clk cfg moves b = do {
     let st = searchStart b;
     ms \<leftarrow> (if useMoveOrdering cfg then orderMoves moves None (s_killers st) (s_history st) 0
            else Some moves);
     (l, st1) \<leftarrow> rootMovesSingle T clk (timeLimitMs cfg) (maxDepth cfg) ms
                  \<lparr>rl_alpha = - INF_score, rl_bestScore = - INF_score, rl_bestMove = hd moves\<rparr> st;
     Some (SearchResult\<lparr>nodesSearched := s_nodes st1, depth := maxDepth cfg,
                        bestMove := rl_bestMove l, score := rl_bestScore l,
                        ttHits := hits (s_tt st1), ttMisses := misses (s_tt st1)\<rparr>,
           s_board st1)
   }"

text \<open>
  \<^verbatim>\<open>findBestMove(board, config)\<close>; the board is a reference parameter, so the position it
  is left in is returned with the result. The function starts with
  \<^verbatim>\<open>TranspositionTable tt(config.ttSizeMB)\<close>, which is \<open>TranspositionTable\<close> in
  \<open>searchStart\<close>: the run described is one in which the table was reserved.
\<close>

definition findBestMove ::
  "tables \<Rightarrow> (nat \<Rightarrow> int) \<Rightarrow> search_config \<Rightarrow> bitboard \<Rightarrow> (search_result \<times> bitboard) option" where
  "findBestMove T clk cfg b0 = do {
     (moves, b) \<leftarrow> getValidMoves T b0;
     if moves = [] then do {
       e \<leftarrow> evaluate T b;
       Some (SearchResult\<lparr>bestMove := Move_default, score := e\<rparr>, b)
     }
     else if length moves = 1 then do {
       (sc, st1) \<leftarrow> rootSearchMove T clk (timeLimitMs cfg) (maxDepth cfg) (- INF_score) 0
                     (hd moves) (searchStart b);
       Some (SearchResult\<lparr>bestMove := hd moves, score := sc, depth := maxDepth cfg,
                          nodesSearched := s_nodes st1\<rparr>, s_board st1)
     }
     else if useIterativeDeepening cfg
     then map_option idFinish (idLoop (nat (maxDepth cfg)) T clk cfg 1 (idStart moves b))
     else singleDepthSearch T clk cfg moves b
   }"

subsection \<open>Observing the depths of the iterative deepening\<close>

text \<open>
  What a depth \<open>d\<close> started with the loop variables \<open>v\<close> does: it is abandoned at the
  deadline, or it completes with a best move and score, and commits them.
\<close>

definition depthAborted :: "tables \<Rightarrow> (nat \<Rightarrow> int) \<Rightarrow> search_config \<Rightarrow> int \<Rightarrow> id_vars \<Rightarrow> bool" where
  "depthAborted T clk cfg d v \<longleftrightarrow>
     (case idIteration T clk cfg d v of Some (ms, Aborted st) \<Rightarrow> True | _ \<Rightarrow> False)"

definition depthBest ::
  "tables \<Rightarrow> (nat \<Rightarrow> int) \<Rightarrow> search_config \<Rightarrow> int \<Rightarrow> id_vars \<Rightarrow> (move \<times> int) option" where
  "depthBest T clk cfg d v =
     (case idIteration T clk cfg d v of
        Some (ms, Completed l st) \<Rightarrow> Some (rl_bestMove l, rl_bestScore l)
      | _ \<Rightarrow> None)"

definition afterDepth ::
  "tables \<Rightarrow> (nat \<Rightarrow> int) \<Rightarrow> search_config \<Rightarrow> int \<Rightarrow> id_vars \<Rightarrow> id_vars option" where
  "afterDepth T clk cfg d v =
     (case idIteration T clk cfg d v of
        Some (ms, Completed l st) \<Rightarrow> Some (idCommit v d ms l st)
      | _ \<Rightarrow> None)"

text \<open>
  The loop variables after the \<open>n\<close> depths \<open>d, d + 1, ...\<close> have all completed without
  the stop at a mate score.
\<close>

fun completedDepths ::
  "nat \<Rightarrow> tables \<Rightarrow> (nat \<Rightarrow> int) \<Rightarrow> search_config \<Rightarrow> int \<Rightarrow> id_vars \<Rightarrow> id_vars option" where
  "completedDepths 0 T clk cfg d v = Some v"
| "completedDepths (Suc n) T clk cfg d v =
     (case afterDepth T clk cfg d v of
        None \<Rightarrow> None
      | Some v1 \<Rightarrow>
          if \<bar>id_bestScore v1\<bar> > MATE_SCORE - 100 then None
          else completedDepths n T clk cfg (d + 1) v1)"

section \<open>The position parser (bitboard.cpp)\<close>

text \<open>
  \<^verbatim>\<open>std::stoi\<close> throws: \<^verbatim>\<open>std::invalid_argument\<close> when no number can be read,
  \<^verbatim>\<open>std::out_of_range\<close> when the number does not fit an \<^verbatim>\<open>int\<close>. It skips leading white
  space, reads an optional sign and the decimal digits that follow, and ignores the rest.
\<close>

datatype load_error = invalid_argument | out_of_range

definition isspace :: "char \<Rightarrow> bool" where
  "isspace c \<longleftrightarrow> (of_char c :: nat) \<in> {9, 10, 11, 12, 13, 32}"

definition isdigit :: "char \<Rightarrow> bool" where
  "isdigit c \<longleftrightarrow> 48 \<le> (of_char c :: nat) \<and> (of_char c :: nat) \<le> 57"

definition digitsValue :: "string \<Rightarrow> int" where
  "digitsValue ds = fold (\<lambda>c n. 10 * n + (int (of_char c) - 48)) ds 0"

definition stoi :: "string \<Rightarrow> load_error + int" where
  "stoi s =
     (let s1 = dropWhile isspace s;
          negative = (s1 \<noteq> [] \<and> hd s1 = CHR ''-'');
          s2 = (if s1 \<noteq> [] \<and> (hd s1 = CHR ''-'' \<or> hd s1 = CHR ''+'') then tl s1 else s1);
          ds = takeWhile isdigit s2;
          v = (if negative then - digitsValue ds else digitsValue ds)
      in if ds = [] then Inl invalid_argument
         else if v < - 2147483648 \<or> v > 2147483647 then Inl out_of_range
         else Inr v)"

text \<open>
  \<^verbatim>\<open>while (std::getline(stream, token, delim))\<close>: the tokens between the delimiters; a
  stream that is at its end gives no further token, so an input that ends with the
  delimiter has no empty last token.
\<close>

fun getlineAll :: "char \<Rightarrow> string \<Rightarrow> string \<Rightarrow> string list" where
  "getlineAll delim cur [] = (if cur = [] then [] else [cur])"
| "getlineAll delim cur (c # cs) =
     (if c = delim then cur # getlineAll delim [] cs else getlineAll delim (cur @ [c]) cs)"

text \<open>
  One pair \<^verbatim>\<open>h<ID>:<VAL>\<close>. \<^verbatim>\<open>substr(1, colonPos - 1)\<close> with \<open>colonPos = 0\<close> has the
  count \<^verbatim>\<open>size_t(-1)\<close>: the rest of the string.
\<close>

definition parseHexPair :: "tables \<Rightarrow> bitboard \<Rightarrow> string \<Rightarrow> load_error + bitboard" where
  "parseHexPair T b hexPair =
     (if length hexPair < 4 then Inr b
      else if CHR '':'' \<notin> set hexPair then Inr b
      else
        let colonPos = length (takeWhile (\<lambda>c. c \<noteq> CHR '':'') hexPair) in
        case stoi (if colonPos = 0 then drop 1 hexPair else take (colonPos - 1) (drop 1 hexPair)) of
          Inl e \<Rightarrow> Inl e
        | Inr h \<Rightarrow>
            (case stoi (drop (colonPos + 1) hexPair) of
               Inl e \<Rightarrow> Inl e
             | Inr tileVal \<Rightarrow> Inr (setHexValue T b h tileVal)))"

fun parseHexPairs :: "tables \<Rightarrow> bitboard \<Rightarrow> string list \<Rightarrow> load_error + bitboard" where
  "parseHexPairs T b [] = Inr b"
| "parseHexPairs T b (p # ps) =
     (case parseHexPair T b p of Inl e \<Rightarrow> Inl e | Inr b1 \<Rightarrow> parseHexPairs T b1 ps)"

fun stoiAll :: "string list \<Rightarrow> load_error + int list" where
  "stoiAll [] = Inr []"
| "stoiAll (t # ts) =
     (case stoi t of
        Inl e \<Rightarrow> Inl e
      | Inr v \<Rightarrow> (case stoiAll ts of Inl e \<Rightarrow> Inl e | Inr vs \<Rightarrow> Inr (v # vs)))"

definition parseSection :: "tables \<Rightarrow> bitboard \<Rightarrow> string \<Rightarrow> load_error + bitboard" where
  "parseSection T b sec =
     (if sec = [] then Inr b
      else if hd sec = CHR ''h'' then parseHexPairs T b (getlineAll CHR '','' [] sec)
      else if take 3 sec = ''p1:''
      then (case stoiAll (getlineAll CHR '','' [] (drop 3 sec)) of
              Inl e \<Rightarrow> Inl e | Inr tiles \<Rightarrow> Inr (setAvailableTiles b PLAYER_1 tiles))
      else if take 3 sec = ''p2:''
      then (case stoiAll (getlineAll CHR '','' [] (drop 3 sec)) of
              Inl e \<Rightarrow> Inl e | Inr tiles \<Rightarrow> Inr (setAvailableTiles b PLAYER_2 tiles))
      else if take 5 sec = ''turn:''
      then (case stoi (drop 5 sec) of Inl e \<Rightarrow> Inl e | Inr p \<Rightarrow> Inr (b\<lparr>currentPlayer := p\<rparr>))
      else Inr b)"

fun parseSections :: "tables \<Rightarrow> bitboard \<Rightarrow> string list \<Rightarrow> load_error + bitboard" where
  "parseSections T b [] = Inr b"
| "parseSections T b (s # ss) =
     (case parseSection T b s of Inl e \<Rightarrow> Inl e | Inr b1 \<Rightarrow> parseSections T b1 ss)"

text \<open>The loop that looks \<open>h\<close> up among the five hexes of the centre column.\<close>

fun isCenterHex :: "tables \<Rightarrow> int \<Rightarrow> int list \<Rightarrow> bool option" where
  "isCenterHex T h [] = Some False"
| "isCenterHex T h (i # is) = do {
     c \<leftarrow> array_get (CENTER_COLUMN_HEXES T) i;
     if h = c then Some True else isCenterHex T h is
   }"

text \<open>The loop that recomputes \<^verbatim>\<open>symmetryStillPossible\<close>.\<close>

fun symmetryLoop :: "tables \<Rightarrow> bitboard \<Rightarrow> int list \<Rightarrow> bool option" where
  "symmetryLoop T b [] = Some True"
| "symmetryLoop T b (h # hs) = do {
     center \<leftarrow> isCenterHex T h [0, 1, 2, 3, 4];
     if center then symmetryLoop T b hs
     else do {
       mirrorHexId \<leftarrow> array_get (VERTICAL_MIRROR_PAIRS T) h;
       val1 \<leftarrow> array_get (hexValues b) h;
       val2 \<leftarrow> array_get (hexValues b) mirrorHexId;
       if val1 \<noteq> 0 \<and> val2 \<noteq> 0 \<and> val1 \<noteq> val2 then Some False else symmetryLoop T b hs
     }
   }"

text \<open>
  \<^verbatim>\<open>loadPosition\<close>: \<open>Some (Inl e)\<close> is the exception \<open>e\<close> leaving the function,
  \<open>Some (Inr b)\<close> the position loaded, \<open>None\<close> a read outside a table.
\<close>

definition loadPosition :: "tables \<Rightarrow> bitboard \<Rightarrow> string \<Rightarrow> (load_error + bitboard) option" where
  "loadPosition T b position =
     (let b1 = (clearBoard T b)\<lparr>p1AvailableTiles := [1, 2, 3, 4, 5, 6, 7, 8, 9],
                                 p2AvailableTiles := [1, 2, 3, 4, 5, 6, 7, 8, 9],
                                 currentPlayer := PLAYER_1\<rparr>
      in case parseSections T b1 (getlineAll CHR ''|'' [] position) of
           Inl e \<Rightarrow> Some (Inl e)
         | Inr b2 \<Rightarrow> do {
             sym \<leftarrow> symmetryLoop T b2 (map int [0..<19]);
             let b3 = b2\<lparr>symmetryStillPossible := sym,
                         tilesAreIdentical := tilesMatch (p1AvailableTiles b2) (p2AvailableTiles b2)\<rparr>;
             Some (Inr (recalcHash T b3))
           })"

section \<open>A board to run the model on\<close>

text \<open>
  Modelled from the spec: the tables of bitboard.h and the keys of zobrist.h are absent, so
  the model is run on an instance built from what the spec and the sources say of them: 19
  hexes on a grid of 9 rows and 5 columns, columns of 3-4-5-4-3 hexes, hex 9 in the centre,
  five hexes on the centre column, six neighbour directions, 15 chain starters (five lines
  for each of the three axes), player 1 scoring the down-right diagonals and player 2 the
  down-left ones, and the full hash as the XOR of the keys of the placed tiles and of the
  side to move. The keys themselves are arbitrary.
\<close>

definition hexRows :: "int list list" where
  "hexRows =
     [[- 1, - 1, 0, - 1, - 1],
      [- 1, 1, - 1, 2, - 1],
      [3, - 1, 4, - 1, 5],
      [- 1, 6, - 1, 7, - 1],
      [8, - 1, 9, - 1, 10],
      [- 1, 11, - 1, 12, - 1],
      [13, - 1, 14, - 1, 15],
      [- 1, 16, - 1, 17, - 1],
      [- 1, - 1, 18, - 1, - 1]]"

definition hexPositions :: "(int \<times> int) list" where
  "hexPositions =
     [(0, 2), (1, 1), (1, 3), (2, 0), (2, 2), (2, 4), (3, 1), (3, 3), (4, 0), (4, 2),
      (4, 4), (5, 1), (5, 3), (6, 0), (6, 2), (6, 4), (7, 1), (7, 3), (8, 2)]"

definition hexAdjacent :: "int list list" where
  "hexAdjacent =
     [[1, 2, 4], [0, 3, 4, 6], [0, 4, 5, 7], [1, 6, 8], [0, 1, 2, 6, 7, 9], [2, 7, 10],
      [1, 3, 4, 8, 9, 11], [2, 4, 5, 9, 10, 12], [3, 6, 11, 13], [4, 6, 7, 11, 12, 14],
      [5, 7, 12, 15], [6, 8, 9, 13, 14, 16], [7, 9, 10, 14, 15, 17], [8, 11, 16],
      [9, 11, 12, 16, 17, 18], [10, 12, 17], [11, 13, 14, 18], [12, 14, 15, 18],
      [14, 16, 17]]"

definition hexStarters :: "(int \<times> int \<times> int) list" where
  "hexStarters =
     [(3, 2, 0), (1, 2, 0), (0, 2, 0), (2, 2, 0), (5, 2, 0),
      (13, 1, 1), (8, 1, 1), (3, 1, 1), (1, 1, 1), (0, 1, 1),
      (0, 1, - 1), (2, 1, - 1), (5, 1, - 1), (10, 1, - 1), (15, 1, - 1)]"

definition sampleKey :: "int \<Rightarrow> int \<Rightarrow> 64 word" where
  "sampleKey h v = word_of_int (1000 + 16 * h + v)"

definition samplePlayerKey :: "int \<Rightarrow> 64 word" where
  "samplePlayerKey p = word_of_int (7 * p)"

definition sampleHash :: "bitboard \<Rightarrow> 64 word" where
  "sampleHash b =
     fold (\<lambda>h acc. if isHexOccupied b h then acc XOR sampleKey h (uint (hexValues b ! nat h)) else acc)
       (map int [0..<19]) (samplePlayerKey (currentPlayer b))"

definition sampleTables :: tables where
  "sampleTables =
     \<lparr>HEX_POSITIONS = hexPositions, ROW_COL_TO_HEX = hexRows, ADJACENT_HEXES = hexAdjacent,
      CHAIN_STARTERS = hexStarters,
      P1_CHAINS = [[13, 16, 18], [8, 11, 14, 17], [3, 6, 9, 12, 15], [1, 4, 7, 10], [0, 2, 5]],
      P2_CHAINS = [[0, 1, 3], [2, 4, 6, 8], [5, 7, 9, 11, 13], [10, 12, 14, 16], [15, 17, 18]],
      CENTER_COLUMN_HEXES = [0, 4, 9, 14, 18],
      VERTICAL_MIRROR_PAIRS = [0, 2, 1, 5, 4, 3, 7, 6, 10, 9, 8, 12, 11, 15, 14, 13, 17, 16, 18],
      getTileHash = sampleKey, getPlayerHash = samplePlayerKey, Zobrist_hash = sampleHash\<rparr>"

definition sampleLines :: "int list list" where
  "sampleLines =
     [[3, 8, 13], [1, 6, 11, 16], [0, 4, 9, 14, 18], [2, 7, 12, 17], [5, 10, 15],
      [13, 16, 18], [8, 11, 14, 17], [3, 6, 9, 12, 15], [1, 4, 7, 10], [0, 2, 5],
      [0, 1, 3], [2, 4, 6, 8], [5, 7, 9, 11, 13], [10, 12, 14, 16], [15, 17, 18]]"

text \<open>The position after construction: tile 1 on the centre hex, player 1 to move.\<close>

definition startBoard :: bitboard where
  "startBoard =
     \<lparr>hexOccupied = 512,
      hexValues = [0, 0, 0, 0, 0, 0, 0, 0, 0, 1, 0, 0, 0, 0, 0, 0, 0, 0, 0],
      p1AvailableTiles = [1, 2, 3, 4, 5, 6, 7, 8, 9],
      p2AvailableTiles = [1, 2, 3, 4, 5, 6, 7, 8, 9],
      currentPlayer = 1, symmetryStillPossible = True, tilesAreIdentical = True,
      zobristHash = 1150\<rparr>"

text \<open>Tiles on the hexes 4 and 9 of the centre column, player 1 to move.\<close>

definition columnBoard :: bitboard where
  "columnBoard =
     \<lparr>hexOccupied = 528,
      hexValues = [0, 0, 0, 0, 5, 0, 0, 0, 0, 1, 0, 0, 0, 0, 0, 0, 0, 0, 0],
      p1AvailableTiles = [1, 2, 3, 4, 6, 7, 8, 9],
      p2AvailableTiles = [1, 2, 3, 4, 6, 7, 8, 9],
      currentPlayer = 1, symmetryStillPossible = True, tilesAreIdentical = True,
      zobristHash = 0\<rparr>"

text \<open>The start position with nine tiles of value 1 in each bag.\<close>

definition onesBoard :: bitboard where
  "onesBoard =
     startBoard\<lparr>p1AvailableTiles := [1, 1, 1, 1, 1, 1, 1, 1, 1],
                p2AvailableTiles := [1, 1, 1, 1, 1, 1, 1, 1, 1]\<rparr>"

text \<open>All hexes but 17 and 18 hold a tile; player 1 to move with the tiles 2 and 3.\<close>

definition endBoard :: bitboard where
  "endBoard =
     \<lparr>hexOccupied = 131071,
      hexValues = [1, 1, 1, 1, 1, 1, 1, 1, 1, 1, 1, 1, 1, 3, 1, 1, 1, 0, 0],
      p1AvailableTiles = [2, 3],
      p2AvailableTiles = [2],
      currentPlayer = 1, symmetryStillPossible = True, tilesAreIdentical = False,
      zobristHash = 0\<rparr>"

text \<open>The default configuration, and the direct search at depth 0.\<close>

definition defaultConfig :: search_config where
  "defaultConfig =
     \<lparr>maxDepth = 20, timeLimitMs = 30000, useIterativeDeepening = True, useMoveOrdering = True,
      useTranspositionTable = True, ttSizeMB = 128, verbose = False\<rparr>"

definition depthZeroConfig :: search_config where
  "depthZeroConfig = defaultConfig\<lparr>maxDepth := 0, useIterativeDeepening := False\<rparr>"

text \<open>A clock that never reaches the limit, and one that passes 50 ms at its fifth reading.\<close>

definition stillClock :: "nat \<Rightarrow> int" where
  "stillClock k = 0"

definition lateClock :: "nat \<Rightarrow> int" where
  "lateClock k = (if k < 4 then 0 else 100)"

section \<open>Heuristic tables: bounds\<close>

lemma killers_shape_init: "killers_shape KillerMoves_init"
  by (simp add: killers_shape_def KillerMoves_init_def MAX_DEPTH_def)

lemma history_shape_init: "history_shape HistoryTable_init"
  by (simp add: history_shape_def HistoryTable_init_def NUM_HEXES_def list_all_iff)

lemma KillerMoves_update_shape:
  assumes "killers_shape k" and "KillerMoves_update k ply m = Some k'"
  shows "killers_shape k'"
  using assms
  by (auto simp: killers_shape_def KillerMoves_update_def array_get_def array_set_def
      split: if_splits bind_splits)

lemma HistoryTable_update_shape:
  assumes "history_shape h" and "HistoryTable_update h m d = Some h'"
  shows "history_shape h'"
  using assms
  by (auto simp: history_shape_def HistoryTable_update_def array_get_def array_set_def
      list_all_iff split: if_splits bind_splits dest!: set_update_subset_insert [THEN subsetD])

lemma KillerMoves_update_total:
  assumes "killers_shape k"
  shows "\<exists>k'. KillerMoves_update k ply m = Some k'"
  using assms
  by (auto simp: killers_shape_def KillerMoves_update_def array_get_def array_set_def MAX_DEPTH_def)

lemma KillerMoves_isKiller_total:
  assumes "killers_shape k"
  shows "\<exists>r. KillerMoves_isKiller k ply m = Some r"
  using assms
  by (auto simp: killers_shape_def KillerMoves_isKiller_def array_get_def MAX_DEPTH_def)

lemma history_row_length:
  assumes "history_shape h" and "0 \<le> i" and "i < NUM_HEXES"
  shows "length (scores h ! nat i) = 10"
proof -
  from assms have "nat i < length (scores h)"
    by (simp add: history_shape_def NUM_HEXES_def)
  then have "scores h ! nat i \<in> set (scores h)"
    by (rule nth_mem)
  with assms(1) show ?thesis
    by (simp add: history_shape_def list_all_iff)
qed

lemma HistoryTable_update_total:
  assumes "history_shape h"
  shows "\<exists>h'. HistoryTable_update h m d = Some h'"
proof (cases "hexId m \<ge> 0 \<and> hexId m < NUM_HEXES \<and> tileValue m \<ge> 0 \<and> tileValue m < 10")
  case True
  then have len: "length (scores h ! nat (hexId m)) = 10"
    using history_row_length [OF assms] by simp
  from True assms have "hexId m < int (length (scores h))"
    by (simp add: history_shape_def NUM_HEXES_def)
  with True len show ?thesis
    by (auto simp: HistoryTable_update_def array_get_def array_set_def)
next
  case False
  then show ?thesis
    by (auto simp: HistoryTable_update_def)
qed

lemma HistoryTable_getScore_total:
  assumes "history_shape h"
  shows "\<exists>r. HistoryTable_getScore h m = Some r"
proof (cases "hexId m \<ge> 0 \<and> hexId m < NUM_HEXES \<and> tileValue m \<ge> 0 \<and> tileValue m < 10")
  case True
  then have len: "length (scores h ! nat (hexId m)) = 10"
    using history_row_length [OF assms] by simp
  from True assms have "hexId m < int (length (scores h))"
    by (simp add: history_shape_def NUM_HEXES_def)
  with True len show ?thesis
    by (auto simp: HistoryTable_getScore_def array_get_def)
next
  case False
  then show ?thesis
    by (auto simp: HistoryTable_getScore_def)
qed

text \<open>
  C10. The heuristic tables guard their arrays. On tables of the declared shape no call
  reads or writes outside an array (every call returns \<open>Some\<close>), a ply outside
  \<open>0 \<le> ply < 50\<close> leaves both killer slots as they are and is no killer, and a move whose
  hex is outside \<open>0 \<le> hexId < 19\<close> or whose tile is outside \<open>0 \<le> tileValue < 10\<close> leaves
  the history table as it is and scores 0.
\<close>

theorem heuristic_tables_bounds_guarded:
  assumes "killers_shape k" and "history_shape h"
  shows "(\<exists>k'. KillerMoves_update k ply m = Some k')
       \<and> (\<exists>r. KillerMoves_isKiller k ply m = Some r)
       \<and> (\<exists>h'. HistoryTable_update h m d = Some h')
       \<and> (\<exists>r. HistoryTable_getScore h m = Some r)
       \<and> (\<not> (0 \<le> ply \<and> ply < 50) \<longrightarrow>
            KillerMoves_update k ply m = Some k \<and> KillerMoves_isKiller k ply m = Some False)
       \<and> (\<not> (0 \<le> hexId m \<and> hexId m < 19 \<and> 0 \<le> tileValue m \<and> tileValue m < 10) \<longrightarrow>
            HistoryTable_update h m d = Some h \<and> HistoryTable_getScore h m = Some 0)"
proof -
  have a: "\<not> (0 \<le> ply \<and> ply < 50) \<longrightarrow>
      KillerMoves_update k ply m = Some k \<and> KillerMoves_isKiller k ply m = Some False"
    by (auto simp: KillerMoves_update_def KillerMoves_isKiller_def MAX_DEPTH_def)
  have b: "\<not> (0 \<le> hexId m \<and> hexId m < 19 \<and> 0 \<le> tileValue m \<and> tileValue m < 10) \<longrightarrow>
      HistoryTable_update h m d = Some h \<and> HistoryTable_getScore h m = Some 0"
    by (auto simp: HistoryTable_update_def HistoryTable_getScore_def NUM_HEXES_def)
  show ?thesis
    using KillerMoves_update_total [OF assms(1)] KillerMoves_isKiller_total [OF assms(1)]
      HistoryTable_update_total [OF assms(2)] HistoryTable_getScore_total [OF assms(2)] a b
    by blast
qed

theorem heuristic_tables_bounds_guarded_witness:
  "killers_shape KillerMoves_init \<and> history_shape HistoryTable_init
   \<and> KillerMoves_update KillerMoves_init 50 (Move 3 4) = Some KillerMoves_init
   \<and> KillerMoves_isKiller KillerMoves_init (- 1) Move_default = Some False
   \<and> HistoryTable_update HistoryTable_init (Move 19 4) 7 = Some HistoryTable_init
   \<and> HistoryTable_getScore HistoryTable_init (Move 3 10) = Some 0"
  using heuristic_tables_bounds_guarded [OF killers_shape_init history_shape_init, of 50 "Move 3 4" 7]
    heuristic_tables_bounds_guarded [OF killers_shape_init history_shape_init, of "- 1" Move_default 7]
    heuristic_tables_bounds_guarded [OF killers_shape_init history_shape_init, of 0 "Move 19 4" 7]
    heuristic_tables_bounds_guarded [OF killers_shape_init history_shape_init, of 0 "Move 3 10" 7]
  by (simp add: killers_shape_init history_shape_init Move_def)

section \<open>The sample board\<close>

lemma sample_lines: "starterLinesAre sampleTables sampleLines"
  unfolding starterLinesAre_def by code_simp

lemma sample_start: "HexukiBitboard sampleTables = Some startBoard"
  by code_simp

lemma ones_moves:
  "getValidMoves sampleTables onesBoard =
   Some ([Move 4 1, Move 6 1, Move 7 1, Move 11 1, Move 12 1, Move 14 1], onesBoard)"
  by code_simp

section \<open>Make and unmake\<close>

lemma checkChain_restores:
  assumes "checkChainLengthConstraint T b h = Some (r, b')"
  shows "b' = b \<and> 0 \<le> h \<and> h < int (length (hexValues b))"
  using assms
  by (auto simp: checkChainLengthConstraint_def array_get_def array_set_def Let_def
      split: bind_splits if_splits)

lemma isMoveLegal_restores:
  assumes "isMoveLegal T b h = Some (r, b')"
  shows "b' = b \<and> (r \<longrightarrow> \<not> isHexOccupied b h \<and> 0 \<le> h \<and> h < int (length (hexValues b)))"
  using assms checkChain_restores [of T b h r b']
  by (auto simp: isMoveLegal_def split: bind_splits if_splits)

lemma validMovesLoop_sound:
  assumes "validMovesLoop T u hs b ms = Some (ms', b')"
  shows "b' = b \<and> (\<forall>m\<in>set ms'. m \<in> set ms \<or>
           (\<not> isHexOccupied b (hexId m) \<and> 0 \<le> hexId m \<and> hexId m < int (length (hexValues b))
            \<and> tileValue m \<in> set u))"
  using assms
proof (induction hs arbitrary: ms)
  case Nil
  then show ?case by simp
next
  case (Cons h hs)
  show ?case
  proof (cases "isHexOccupied b h")
    case True
    with Cons.prems have "validMovesLoop T u hs b ms = Some (ms', b')" by simp
    then show ?thesis by (rule Cons.IH)
  next
    case False
    with Cons.prems obtain legal b1 where
      l: "isMoveLegal T b h = Some (legal, b1)" and
      r: "validMovesLoop T u hs b1 (if legal then ms @ map (Move h) u else ms) = Some (ms', b')"
      by (auto split: bind_splits)
    from isMoveLegal_restores [OF l] have b1: "b1 = b"
      and ok: "legal \<longrightarrow> \<not> isHexOccupied b h \<and> 0 \<le> h \<and> h < int (length (hexValues b))"
      by simp_all
    from Cons.IH [OF r [unfolded b1]] ok show ?thesis
      by (auto simp: Move_def split: if_splits)
  qed
qed

lemma getValidMoves_sound:
  assumes "getValidMoves T b = Some (ms, b')" and "m \<in> set ms"
  shows "b' = b" and "\<not> isHexOccupied b (hexId m)" and "0 \<le> hexId m"
    and "hexId m < int (length (hexValues b))"
    and "tileValue m \<in> set (availableTiles b (currentPlayer b))"
proof -
  have u: "set (uniqueTileValues (availableTiles b (currentPlayer b))) =
           set (availableTiles b (currentPlayer b))"
  proof -
    have "\<And>acc tiles. set (fold (\<lambda>tile u. if tile \<in> set u then u else u @ [tile]) tiles acc) =
        set acc \<union> set (tiles :: int list)"
    proof -
      fix acc tiles
      show "set (fold (\<lambda>tile u. if tile \<in> set u then u else u @ [tile]) tiles acc) =
        set acc \<union> set (tiles :: int list)"
        by (induction tiles arbitrary: acc) auto
    qed
    then show ?thesis by (simp add: uniqueTileValues_def)
  qed
  from validMovesLoop_sound [OF assms(1) [unfolded getValidMoves_def]] assms(2) u
  show "b' = b" and "\<not> isHexOccupied b (hexId m)" and "0 \<le> hexId m"
    and "hexId m < int (length (hexValues b))"
    and "tileValue m \<in> set (availableTiles b (currentPlayer b))"
    by auto
qed

lemma emptyHexesHoldZeroD:
  assumes "emptyHexesHoldZero b" and "i < length (hexValues b)" and "\<not> bit (hexOccupied b) i"
  shows "hexValues b ! i = 0"
  using assms by (auto simp: emptyHexesHoldZero_def list_all_iff)

lemma switchPlayer_twice:
  assumes "p = PLAYER_1 \<or> p = PLAYER_2"
  shows "switchPlayer (switchPlayer p) = p"
  using assms by (auto simp: switchPlayer_def PLAYER_1_def PLAYER_2_def)

lemma clear_set_bit:
  fixes w :: "32 word"
  assumes "\<not> bit w n"
  shows "(w OR push_bit n 1) AND NOT (push_bit n 1) = w"
proof (rule bit_word_eqI)
  fix k assume "k < LENGTH(32)"
  then show "bit ((w OR push_bit n 1) AND NOT (push_bit n 1)) k \<longleftrightarrow> bit w k"
    using assms by (auto simp: bit_and_iff bit_or_iff bit_not_iff bit_exp_iff)
qed

lemma xor_twice:
  fixes z :: "64 word"
  shows "(((z XOR t) XOR p) XOR t) XOR p = z"
  by (rule bit_eqI) (auto simp: bit_xor_iff)

text \<open>
  C1. For a position whose side to move is one of the two players and whose empty hexes
  hold 0, and a move \<open>m\<close> of \<^verbatim>\<open>getValidMoves\<close>: \<^verbatim>\<open>makeMove(m)\<close> followed by
  \<^verbatim>\<open>unmakeMove(m)\<close> gives back the occupancy mask, the hex values, the side to move and the
  hash exactly, and each bag with the same multiset of tile values.
\<close>

theorem make_unmake_restores:
  assumes "getValidMoves T b = Some (ms, b')" and "m \<in> set ms"
    and "sideIsPlayer b" and "emptyHexesHoldZero b"
  shows "\<exists>b1 b2. makeMove T b m = Some b1 \<and> unmakeMove T b1 m = Some b2
           \<and> hexOccupied b2 = hexOccupied b \<and> hexValues b2 = hexValues b
           \<and> currentPlayer b2 = currentPlayer b \<and> zobristHash b2 = zobristHash b
           \<and> mset (p1AvailableTiles b2) = mset (p1AvailableTiles b)
           \<and> mset (p2AvailableTiles b2) = mset (p2AvailableTiles b)"
proof -
  note s = getValidMoves_sound [OF assms(1,2)]
  let ?h = "nat (hexId m)"
  have inr: "0 \<le> hexId m \<and> hexId m < int (length (hexValues b))" using s by simp
  then have lt: "?h < length (hexValues b)" by linarith
  have nb: "\<not> bit (hexOccupied b) ?h" using s(2,3) by (simp add: isHexOccupied_def)
  have z: "hexValues b ! ?h = 0" by (rule emptyHexesHoldZeroD [OF assms(4) lt nb])
  have vals: "(hexValues b)[?h := 0] = hexValues b"
    using list_update_id [of "hexValues b" ?h] by (simp add: z)
  have occ: "(hexOccupied b OR push_bit ?h 1) AND NOT (push_bit ?h 1) = hexOccupied b"
    by (rule clear_set_bit [OF nb])
  have bag: "tileValue m \<in> set (availableTiles b (currentPlayer b))" by (rule s(5))
  show ?thesis
  proof (cases "currentPlayer b = PLAYER_1")
    case True
    with bag have "tileValue m \<in> set (p1AvailableTiles b)" by (simp add: availableTiles_def)
    with True inr occ vals show ?thesis
      by (simp add: makeMove_def unmakeMove_def array_set_def Let_def updateZobristHash_def
          switchPlayer_def PLAYER_1_def PLAYER_2_def xor_twice del: push_bit_of_1)
  next
    case False
    with assms(3) have p2: "currentPlayer b = PLAYER_2" by (simp add: sideIsPlayer_def)
    with bag have "tileValue m \<in> set (p2AvailableTiles b)"
      by (simp add: availableTiles_def PLAYER_1_def PLAYER_2_def)
    with p2 inr occ vals show ?thesis
      by (simp add: makeMove_def unmakeMove_def array_set_def Let_def updateZobristHash_def
          switchPlayer_def PLAYER_1_def PLAYER_2_def xor_twice del: push_bit_of_1)
  qed
qed

text \<open>
  The two invariants hold of a constructed position and are kept by the mutators; a side
  to move outside the two players (as \<^verbatim>\<open>loadPosition\<close> sets it from \<^verbatim>\<open>turn:3\<close>) is not
  given back by \<^verbatim>\<open>unmakeMove\<close>.
\<close>

lemma emptyHexesHoldZero_iff:
  "emptyHexesHoldZero b \<longleftrightarrow>
   (\<forall>i. i < length (hexValues b) \<longrightarrow> bit (hexOccupied b) i \<or> hexValues b ! i = 0)"
  by (auto simp: emptyHexesHoldZero_def list_all_iff)

lemma constructed_position_invariants:
  assumes "HexukiBitboard T = Some b"
  shows "sideIsPlayer b \<and> emptyHexesHoldZero b"
  using assms
  by (auto simp: HexukiBitboard_def reset_def recalcHash_def array_set_def Let_def
      sideIsPlayer_def emptyHexesHoldZero_iff NUM_HEXES_def CENTER_HEX_def
      nth_list_update bit_exp_iff split: if_splits)

lemma makeMove_invariants:
  assumes "makeMove T b m = Some b1" and "length (hexValues b) \<le> 32"
  shows "sideIsPlayer b1 \<and> (emptyHexesHoldZero b \<longrightarrow> emptyHexesHoldZero b1)"
  using assms
  by (auto simp: makeMove_def updateZobristHash_def array_set_def Let_def switchPlayer_def
      sideIsPlayer_def emptyHexesHoldZero_iff nth_list_update bit_or_iff bit_exp_iff
      split: if_splits)

lemma unmakeMove_invariants:
  assumes "unmakeMove T b m = Some b1" and "length (hexValues b) \<le> 32"
  shows "sideIsPlayer b1 \<and> (emptyHexesHoldZero b \<longrightarrow> emptyHexesHoldZero b1)"
  using assms
  by (auto simp: unmakeMove_def updateZobristHash_def array_set_def Let_def switchPlayer_def
      sideIsPlayer_def emptyHexesHoldZero_iff nth_list_update bit_and_iff bit_not_iff
      bit_exp_iff split: if_splits)

theorem make_unmake_restores_witness:
  "getValidMoves sampleTables onesBoard =
     Some ([Move 4 1, Move 6 1, Move 7 1, Move 11 1, Move 12 1, Move 14 1], onesBoard)
   \<and> sideIsPlayer onesBoard \<and> emptyHexesHoldZero onesBoard
   \<and> (\<exists>b1 b2. makeMove sampleTables onesBoard (Move 7 1) = Some b1
         \<and> unmakeMove sampleTables b1 (Move 7 1) = Some b2
         \<and> hexOccupied b2 = hexOccupied onesBoard \<and> hexValues b2 = hexValues onesBoard
         \<and> currentPlayer b2 = currentPlayer onesBoard \<and> zobristHash b2 = zobristHash onesBoard
         \<and> mset (p1AvailableTiles b2) = mset (p1AvailableTiles onesBoard)
         \<and> mset (p2AvailableTiles b2) = mset (p2AvailableTiles onesBoard))"
proof -
  have m: "Move 7 1 \<in> set [Move 4 1, Move 6 1, Move 7 1, Move 11 1, Move 12 1, Move 14 1]"
    by simp
  have s: "sideIsPlayer onesBoard" and z: "emptyHexesHoldZero onesBoard"
    by code_simp+
  show ?thesis
    using make_unmake_restores [OF ones_moves m s z] ones_moves s z by simp
qed

lemma side_not_restored_outside_players:
  "map_option currentPlayer
     (Option.bind (makeMove sampleTables (onesBoard\<lparr>currentPlayer := 3\<rparr>) (Move 7 1))
        (\<lambda>b1. unmakeMove sampleTables b1 (Move 7 1))) = Some 2"
  by code_simp

section \<open>The chain-length constraint\<close>

lemma maxOf_Max: "maxOf ls = Max (insert 0 (set ls))"
proof -
  have "fold max ls (0::int) = Max (set (0 # ls))"
    by (rule Max.set_eq_fold [symmetric])
  then show ?thesis by (simp add: maxOf_def)
qed

lemma maxOf_Nil [simp]: "maxOf [] = 0"
  by (simp add: maxOf_def)

lemma maxOf_nonneg: "0 \<le> maxOf ls"
  by (simp add: maxOf_Max)

lemma maxOf_ge: "x \<in> set ls \<Longrightarrow> x \<le> maxOf ls"
  by (simp add: maxOf_Max)

lemma maxOf_snoc: "maxOf (ls @ [l]) = max (maxOf ls) l"
  by (simp add: maxOf_def)

lemma maxOf_in:
  assumes "\<forall>x\<in>set ls. 0 \<le> x" and "ls \<noteq> []"
  shows "maxOf ls \<in> set ls"
proof -
  have "Max (insert 0 (set ls)) \<in> insert 0 (set ls)"
    by (rule Max_in) auto
  then have "maxOf ls = 0 \<or> maxOf ls \<in> set ls"
    by (simp add: maxOf_Max)
  moreover have "maxOf ls = 0 \<Longrightarrow> maxOf ls \<in> set ls"
  proof -
    assume z: "maxOf ls = 0"
    from assms(2) obtain x where x: "x \<in> set ls" by (cases ls) auto
    with assms(1) maxOf_ge [OF x] z have "x = 0" by force
    with x z show ?thesis by simp
  qed
  ultimately show ?thesis by blast
qed

lemma secondLargest_le: "secondLargest ls \<le> maxOf ls"
proof -
  have "set (remove1 (maxOf ls) ls) \<subseteq> set ls" by (rule set_remove1_subset)
  then have "Max (insert 0 (set (remove1 (maxOf ls) ls))) \<le> Max (insert 0 (set ls))"
    by (intro Max_mono) auto
  then show ?thesis by (simp add: secondLargest_def maxOf_Max)
qed

lemma fold_reg2:
  assumes "\<forall>x\<in>set ls. 0 \<le> x"
  shows "fold reg2 ls (0, 0) = (maxOf ls, secondLargest ls)"
  using assms
proof (induction ls rule: rev_induct)
  case Nil
  show ?case by (simp add: secondLargest_def)
next
  case (snoc l p)
  then have ih: "fold reg2 p (0, 0) = (maxOf p, secondLargest p)" and pos: "\<forall>x\<in>set p. 0 \<le> x"
    and l0: "0 \<le> l" by auto
  have step: "fold reg2 (p @ [l]) (0, 0) = reg2 l (maxOf p, secondLargest p)"
    by (simp add: ih)
  have sm: "secondLargest p \<le> maxOf p" by (rule secondLargest_le)
  have mem: "p \<noteq> [] \<Longrightarrow> maxOf p \<in> set p" using maxOf_in [OF pos] by simp
  show ?case
  proof (cases "l > maxOf p")
    case True
    then have "l \<notin> set p" using maxOf_ge [of l p] by auto
    then have "remove1 l (p @ [l]) = p" by (simp add: remove1_append)
    with True show ?thesis
      unfolding step by (simp add: reg2_def maxOf_snoc secondLargest_def max_def)
  next
    case False
    then have mx: "maxOf (p @ [l]) = maxOf p" by (simp add: maxOf_snoc max_def)
    show ?thesis
    proof (cases "p = []")
      case True
      with False l0 show ?thesis
        unfolding step by (simp add: reg2_def secondLargest_def maxOf_def)
    next
      case False': False
      then have "maxOf p \<in> set p" by (rule mem)
      then have "remove1 (maxOf p) (p @ [l]) = remove1 (maxOf p) p @ [l]"
        by (simp add: remove1_append)
      then have "secondLargest (p @ [l]) = maxOf (remove1 (maxOf p) p @ [l])"
        by (simp add: secondLargest_def mx)
      then have "secondLargest (p @ [l]) = max (secondLargest p) l"
        by (simp add: secondLargest_def maxOf_snoc)
      with False sm show ?thesis
        unfolding step by (auto simp: reg2_def mx max_def)
    qed
  qed
qed


lemma summary_chainEnded:
  "summary (chainEnded a) = reg (currentLength a, chainContainsHexId a) (summary a)"
  by (simp add: summary_def chainEnded_def reg_def reg2_def Let_def)

lemma fold_step_run:
  assumes "\<forall>y\<in>set r. isHexOccupied b y"
  shows "fold (chainStep b h) r a =
         a\<lparr>currentLength := currentLength a + int (length r),
           chainContainsHexId := (chainContainsHexId a \<or> h \<in> set r)\<rparr>"
  using assms
proof (induction r arbitrary: a)
  case Nil
  show ?case by simp
next
  case (Cons y r)
  then show ?case by (auto simp: chainStep_def)
qed

lemma line_runs:
  assumes "currentLength a = 0" and "\<not> chainContainsHexId a"
  shows "summary (chainFinish (fold (chainStep b h) xs a)) =
         fold reg (map (chainInfo h) (maximalRuns (isHexOccupied b) xs)) (summary a)"
  using assms
proof (induction "isHexOccupied b" xs arbitrary: a rule: maximalRuns.induct)
  case 1
  then show ?case by (simp add: chainFinish_def)
next
  case (2 x xs)
  let ?P = "isHexOccupied b"
  show ?case
  proof (cases "?P x")
    case False
    have "chainStep b h x a = a" using False 2(3) by (simp add: chainStep_def)
    then show ?thesis using False 2(2) [OF False 2(3) 2(4)] by simp
  next
    case True
    define r where "r = takeWhile ?P (x # xs)"
    define rest where "rest = dropWhile ?P xs"
    have split: "x # xs = r @ rest" using True by (simp add: r_def rest_def)
    have rP: "\<forall>y\<in>set r. ?P y" by (auto simp: r_def dest: set_takeWhileD)
    have rne: "r \<noteq> []" using True by (simp add: r_def)
    define ar where "ar = a\<lparr>currentLength := int (length r), chainContainsHexId := h \<in> set r\<rparr>"
    have far: "fold (chainStep b h) r a = ar"
      using fold_step_run [OF rP, of h a] 2(3,4) by (simp add: ar_def)
    have whole: "fold (chainStep b h) (x # xs) a = fold (chainStep b h) rest ar"
      unfolding split by (simp add: far)
    have runs: "maximalRuns ?P (x # xs) = r # maximalRuns ?P rest"
      using True by (simp add: r_def rest_def)
    have reg_ar: "summary (chainEnded ar) = reg (chainInfo h r) (summary a)"
      by (simp add: summary_chainEnded) (simp add: ar_def chainInfo_def summary_def)
    have pos: "currentLength ar > 0" using rne by (simp add: ar_def)
    show ?thesis
    proof (cases rest)
      case Nil
      have "summary (chainFinish (fold (chainStep b h) (x # xs) a)) = summary (chainEnded ar)"
        unfolding whole using Nil pos by (simp add: chainFinish_def)
      then show ?thesis unfolding runs using Nil reg_ar by simp
    next
      case (Cons y ys)
      have ny: "\<not> ?P y"
        using Cons by (simp add: rest_def dropWhile_eq_Cons_conv)
      define a' where "a' = (chainEnded ar)\<lparr>currentLength := 0, chainContainsHexId := False\<rparr>"
      have s1: "chainStep b h y ar = a'" using ny pos by (simp add: chainStep_def a'_def)
      have s2: "chainStep b h y a' = a'" using ny by (simp add: chainStep_def a'_def)
      have eq: "fold (chainStep b h) rest ar = fold (chainStep b h) rest a'"
        by (simp add: Cons s1 s2)
      have sa': "summary a' = reg (chainInfo h r) (summary a)"
        using reg_ar by (simp add: a'_def summary_def)
      have ih: "summary (chainFinish (fold (chainStep b h) rest a')) =
                fold reg (map (chainInfo h) (maximalRuns ?P rest)) (summary a')"
        unfolding rest_def by (rule 2(1) [OF True]) (simp_all add: a'_def)
      show ?thesis unfolding whole eq ih runs sa' by simp
    qed
  qed
qed

lemma summary_chainStarter:
  "summary (chainStarter b h line a) =
   fold reg (map (chainInfo h) (maximalRuns (isHexOccupied b) line)) (summary a)"
proof -
  let ?init = "a\<lparr>currentLength := 0, chainContainsHexId := False\<rparr>"
  have "summary (chainFinish (fold (chainStep b h) line ?init)) =
        fold reg (map (chainInfo h) (maximalRuns (isHexOccupied b) line)) (summary ?init)"
    by (rule line_runs) simp_all
  then show ?thesis
    by (simp add: chainStarter_def chainFinish_def Let_def summary_def)
qed

lemma summary_fold_chainStarter:
  "summary (fold (chainStarter b h) lines a) =
   fold reg (map (chainInfo h) (concat (map (maximalRuns (isHexOccupied b)) lines))) (summary a)"
proof (induction lines arbitrary: a)
  case Nil
  show ?case by simp
next
  case (Cons l ls)
  show ?case by (simp add: Cons.IH summary_chainStarter)
qed

lemma chainStarters_fold:
  assumes "map (starterLine T) is = map Some lines"
  shows "chainStarters T b h is a = Some (fold (chainStarter b h) lines a)"
  using assms
proof (induction "is" arbitrary: lines a)
  case Nil
  then show ?case by simp
next
  case (Cons i "is")
  then obtain l ls where "lines = l # ls" by (cases lines) auto
  with Cons show ?case by simp
qed

lemma fold_reg_12:
  "(fst (fold reg infos (m, s, l)), fst (snd (fold reg infos (m, s, l)))) =
   fold reg2 (map fst infos) (m, s)"
proof (induction infos arbitrary: m s l)
  case Nil
  show ?case by simp
next
  case (Cons i infos)
  show ?case
    using Cons.IH [of "fst (reg2 (fst i) (m, s))" "snd (reg2 (fst i) (m, s))"
        "if snd i \<and> fst i > l then fst i else l"]
    by (simp add: reg_def)
qed

lemma fold_reg_3:
  "snd (snd (fold reg infos (m, s, l))) = fold max (map fst (filter snd infos)) l"
proof (induction infos arbitrary: m s l)
  case Nil
  show ?case by simp
next
  case (Cons i infos)
  show ?case
    using Cons.IH [of "fst (reg2 (fst i) (m, s))" "snd (reg2 (fst i) (m, s))"
        "if snd i \<and> fst i > l then fst i else l"]
    by (simp add: reg_def max_def)
qed


lemma isHexOccupied_placed:
  assumes "0 \<le> h" and "h < NUM_HEXES"
  shows "isHexOccupied (b\<lparr>hexOccupied := hexOccupied b OR push_bit (nat h) 1, hexValues := vs\<rparr>) x
         \<longleftrightarrow> x = h \<or> isHexOccupied b x"
proof -
  have "nat h < 32" using assms by (simp add: NUM_HEXES_def)
  then show ?thesis
    using assms(1)
    by (auto simp: isHexOccupied_def bit_or_iff bit_exp_iff)
qed

lemma chain_results:
  assumes "summary a = fold reg (map (chainInfo h) cs) (0, 0, 0)"
  shows "longestAffected a = maxOf (map (\<lambda>c. int (length c)) (filter (\<lambda>c. h \<in> set c) cs))"
    and "secondMaxLength a = secondLargest (map (\<lambda>c. int (length c)) cs)"
proof -
  let ?infos = "map (chainInfo h) cs"
  have f: "map fst (filter snd ?infos) = map (\<lambda>c. int (length c)) (filter (\<lambda>c. h \<in> set c) cs)"
    by (induction cs) (simp_all add: chainInfo_def)
  have "longestAffected a = snd (snd (summary a))" by (simp add: summary_def)
  also have "\<dots> = fold max (map fst (filter snd ?infos)) 0"
    unfolding assms by (rule fold_reg_3)
  finally show "longestAffected a = maxOf (map (\<lambda>c. int (length c)) (filter (\<lambda>c. h \<in> set c) cs))"
    by (simp add: f maxOf_def)
  have g: "map fst ?infos = map (\<lambda>c. int (length c)) cs"
    by (simp add: chainInfo_def)
  have "(fst (summary a), fst (snd (summary a))) = fold reg2 (map fst ?infos) (0, 0)"
    unfolding assms by (rule fold_reg_12)
  also have "\<dots> = (maxOf (map fst ?infos), secondLargest (map fst ?infos))"
    by (rule fold_reg2) (simp add: chainInfo_def)
  finally have "secondMaxLength a = secondLargest (map fst ?infos)"
    by (simp add: summary_def)
  then show "secondMaxLength a = secondLargest (map (\<lambda>c. int (length c)) cs)"
    by (simp only: g)
qed

lemma checkChain_rule:
  assumes "starterLinesAre T lines" and "0 \<le> h" and "h < NUM_HEXES"
    and "length (hexValues b) = nat NUM_HEXES"
  shows "checkChainLengthConstraint T b h = Some (chainLegal lines b h, b)"
proof -
  let ?b1 = "b\<lparr>hexOccupied := hexOccupied b OR push_bit (nat h) 1,
               hexValues := (hexValues b)[nat h := 1]\<rparr>"
  let ?init = "\<lparr>maxLength = 0, secondMaxLength = 0, longestAffected = 0,
              currentLength = 0, chainContainsHexId = False\<rparr>"
  let ?a = "fold (chainStarter ?b1 h) lines ?init"
  have inr: "0 \<le> h \<and> h < int (length (hexValues b))"
    using assms by (simp add: NUM_HEXES_def)
  have loop: "chainStarters T ?b1 h (map int [0..<15]) ?init = Some ?a"
    by (rule chainStarters_fold) (use assms(1) in \<open>simp add: starterLinesAre_def\<close>)
  have occ: "isHexOccupied ?b1 = (\<lambda>x. x = h \<or> isHexOccupied b x)"
    using isHexOccupied_placed [OF assms(2,3)] by (intro ext) simp
  have "summary ?a = fold reg (map (chainInfo h) (chainsAfterPlacing lines b h)) (0, 0, 0)"
    unfolding chainsAfterPlacing_def occ [symmetric]
    by (simp add: summary_fold_chainStarter) (simp add: summary_def)
  note res = chain_results [OF this]
  have restore: "?b1\<lparr>hexValues := (hexValues ?b1)[nat h := hexValues b ! nat h],
                     hexOccupied := hexOccupied b\<rparr> = b"
    by simp
  have "checkChainLengthConstraint T b h =
        Some (\<not> (longestAffected ?a > secondMaxLength ?a + 1), b)"
    using inr restore
    by (simp add: checkChainLengthConstraint_def array_get_def array_set_def loop Let_def
        del: push_bit_of_1)
  then show ?thesis
    by (simp add: chainLegal_def Let_def res not_less del: push_bit_of_1)
qed

text \<open>
  C7. Let the walks of the 15 chain starters end and visit \<open>lines\<close>. For a hex \<open>h\<close> of
  the board, \<^verbatim>\<open>checkChainLengthConstraint(h)\<close> answers whether, with a tile placed on \<open>h\<close>,
  the longest chain through \<open>h\<close> is at most one longer than the second-largest chain
  length of the whole board (\<open>L \<le> S + 1\<close>, \<^const>\<open>chainLegal\<close>), and it leaves every
  field of the position as it found it.
\<close>

theorem checkChainLengthConstraint_rule:
  assumes "starterLinesAre T lines" and "0 \<le> h" and "h < NUM_HEXES"
    and "length (hexValues b) = nat NUM_HEXES"
  shows "checkChainLengthConstraint T b h = Some (chainLegal lines b h, b)"
  using assms by (rule checkChain_rule)

theorem checkChainLengthConstraint_rule_witness:
  "starterLinesAre sampleTables sampleLines
   \<and> checkChainLengthConstraint sampleTables startBoard 4 = Some (True, startBoard)
   \<and> checkChainLengthConstraint sampleTables columnBoard 14 = Some (False, columnBoard)"
proof -
  have s: "length (hexValues startBoard) = nat NUM_HEXES"
    and c: "length (hexValues columnBoard) = nat NUM_HEXES"
    by code_simp+
  have r4: "(0::int) \<le> 4 \<and> (4::int) < NUM_HEXES" and r14: "(0::int) \<le> 14 \<and> (14::int) < NUM_HEXES"
    by (simp_all add: NUM_HEXES_def)
  have l1: "chainLegal sampleLines startBoard 4 = True"
    and l2: "chainLegal sampleLines columnBoard 14 = False"
    by code_simp+
  show ?thesis
    using checkChainLengthConstraint_rule [OF sample_lines, of 4 startBoard]
      checkChainLengthConstraint_rule [OF sample_lines, of 14 columnBoard]
      s c r4 r14 l1 l2 sample_lines
    by simp
qed

section \<open>Move generation\<close>

lemma isMoveLegal_legalHex:
  assumes "starterLinesAre T lines" and "length (hexValues b) = nat NUM_HEXES"
    and "length (ADJACENT_HEXES T) = nat NUM_HEXES" and "0 \<le> h" and "h < NUM_HEXES"
  shows "isMoveLegal T b h = Some (legalHex T lines b h, b)"
proof -
  have adj: "hasAdjacentOccupied T b h = Some (list_ex (isHexOccupied b) (ADJACENT_HEXES T ! nat h))"
    using assms(3,4,5) by (simp add: hasAdjacentOccupied_def array_get_def)
  show ?thesis
    using assms(4,5)
    by (simp add: isMoveLegal_def adj legalHex_def
        checkChain_rule [OF assms(1) assms(4) assms(5) assms(2)])
qed

lemma validMovesLoop_eq:
  assumes "starterLinesAre T lines" and "length (hexValues b) = nat NUM_HEXES"
    and "length (ADJACENT_HEXES T) = nat NUM_HEXES"
    and "\<forall>h\<in>set hs. 0 \<le> h \<and> h < NUM_HEXES"
  shows "validMovesLoop T u hs b ms =
         Some (ms @ concat (map (\<lambda>h. map (Move h) u) (filter (legalHex T lines b) hs)), b)"
  using assms(4)
proof (induction hs arbitrary: ms)
  case Nil
  show ?case by simp
next
  case (Cons h hs)
  then have r: "0 \<le> h" "h < NUM_HEXES" and rest: "\<forall>h\<in>set hs. 0 \<le> h \<and> h < NUM_HEXES"
    by simp_all
  note leg = isMoveLegal_legalHex [OF assms(1-3) r]
  show ?case
  proof (cases "isHexOccupied b h")
    case True
    then have "\<not> legalHex T lines b h" by (simp add: legalHex_def)
    with True show ?thesis by (simp add: Cons.IH [OF rest])
  next
    case False
    then show ?thesis by (simp add: leg Cons.IH [OF rest])
  qed
qed

lemma fold_unique:
  "set (fold (\<lambda>tile u. if tile \<in> set u then u else u @ [tile]) tiles acc) = set acc \<union> set tiles
   \<and> (distinct acc \<longrightarrow> distinct (fold (\<lambda>tile u. if tile \<in> set u then u else u @ [tile]) tiles acc))"
  by (induction tiles arbitrary: acc) auto

lemma set_uniqueTileValues: "set (uniqueTileValues tiles) = set tiles"
  using fold_unique [of tiles "[]"] by (simp add: uniqueTileValues_def)

lemma distinct_uniqueTileValues: "distinct (uniqueTileValues tiles)"
  using fold_unique [of tiles "[]"] by (simp add: uniqueTileValues_def)

lemma set_hex_moves:
  "set (concat (map (\<lambda>h. map (Move h) u) hs)) = {Move h v |h v. h \<in> set hs \<and> v \<in> set u}"
  by auto

lemma distinct_hex_moves:
  assumes "distinct hs" and "distinct u"
  shows "distinct (concat (map (\<lambda>h. map (Move h) u) hs))"
  using assms(1)
proof (induction hs)
  case Nil
  show ?case by simp
next
  case (Cons h hs)
  have inj: "inj_on (Move h) (set u)" by (rule inj_onI) (simp add: Move_def)
  have "set (map (Move h) u) \<inter> set (concat (map (\<lambda>h. map (Move h) u) hs)) = {}"
    using Cons.prems by (auto simp: Move_def)
  with Cons inj assms(2) show ?case by (simp add: distinct_map)
qed

lemma getValidMoves_moves:
  assumes "starterLinesAre T lines" and "length (hexValues b) = nat NUM_HEXES"
    and "length (ADJACENT_HEXES T) = nat NUM_HEXES"
  shows "\<exists>ms. getValidMoves T b = Some (ms, b) \<and> distinct ms
          \<and> set ms = {Move h v |h v. legalHex T lines b h
                         \<and> v \<in> set (availableTiles b (currentPlayer b))}"
proof -
  let ?u = "uniqueTileValues (availableTiles b (currentPlayer b))"
  let ?hs = "filter (legalHex T lines b) (map int [0..<19])"
  let ?ms = "concat (map (\<lambda>h. map (Move h) ?u) ?hs)"
  have rng: "\<forall>h\<in>set (map int [0..<19]). 0 \<le> h \<and> h < NUM_HEXES"
    by (auto simp: NUM_HEXES_def)
  have eq: "getValidMoves T b = Some (?ms, b)"
    unfolding getValidMoves_def using validMovesLoop_eq [OF assms rng, of ?u "[]"] by simp
  have d: "distinct ?ms"
    by (rule distinct_hex_moves) (simp_all add: distinct_uniqueTileValues distinct_map)
  have mem: "set ?hs = {h. legalHex T lines b h}"
  proof -
    have "\<And>h. legalHex T lines b h \<Longrightarrow> h \<in> set (map int [0..<19])"
    proof -
      fix h assume "legalHex T lines b h"
      then have "0 \<le> h" "h < 19" by (simp_all add: legalHex_def NUM_HEXES_def)
      then have "nat h \<in> set [0..<19]" "int (nat h) = h" by simp_all
      then show "h \<in> set (map int [0..<19])" by (metis imageI set_map)
    qed
    then show ?thesis by auto
  qed
  have s: "set ?ms = {Move h v |h v. legalHex T lines b h
                         \<and> v \<in> set (availableTiles b (currentPlayer b))}"
    unfolding set_hex_moves mem by (simp add: set_uniqueTileValues)
  from eq d s show ?thesis by blast
qed

text \<open>
  C8. Let the walks of the 15 chain starters end. \<^verbatim>\<open>getValidMoves\<close> returns, leaving the
  position as it was, a list without repetition whose moves are exactly the pairs of a
  legal hex (empty, with an occupied neighbour, chain-legal) and a tile value present in
  the mover's bag: a value that occurs several times in the bag gives one move per legal
  hex.
\<close>

theorem getValidMoves_exact:
  assumes "starterLinesAre T lines" and "length (hexValues b) = nat NUM_HEXES"
    and "length (ADJACENT_HEXES T) = nat NUM_HEXES"
  shows "\<exists>ms. getValidMoves T b = Some (ms, b) \<and> distinct ms
          \<and> set ms = {Move h v |h v. legalHex T lines b h
                         \<and> v \<in> set (availableTiles b (currentPlayer b))}"
  using assms by (rule getValidMoves_moves)

theorem getValidMoves_exact_witness:
  "starterLinesAre sampleTables sampleLines
   \<and> length (hexValues onesBoard) = nat NUM_HEXES
   \<and> length (ADJACENT_HEXES sampleTables) = nat NUM_HEXES
   \<and> (\<exists>ms. getValidMoves sampleTables onesBoard = Some (ms, onesBoard) \<and> distinct ms
         \<and> set ms = {Move h v |h v. legalHex sampleTables sampleLines onesBoard h
                        \<and> v \<in> set (availableTiles onesBoard (currentPlayer onesBoard))})
   \<and> map_option (\<lambda>r. length (fst r)) (getValidMoves sampleTables onesBoard) = Some 6"
proof -
  have l: "length (hexValues onesBoard) = nat NUM_HEXES"
    and a: "length (ADJACENT_HEXES sampleTables) = nat NUM_HEXES"
    by code_simp+
  have n: "map_option (\<lambda>r. length (fst r)) (getValidMoves sampleTables onesBoard) = Some 6"
    by (simp add: ones_moves)
  show ?thesis
    using getValidMoves_exact [OF sample_lines l a] sample_lines l a n by simp
qed

text \<open>
  C9, as amended. Let the walks of the 15 chain starters end. If every tile value in the
  mover's bag is one of 1..9, every move of \<^verbatim>\<open>getValidMoves\<close> satisfies
  \<^verbatim>\<open>isValidMove\<close>.
\<close>

theorem getValidMoves_all_valid:
  assumes "starterLinesAre T lines" and "length (hexValues b) = nat NUM_HEXES"
    and "length (ADJACENT_HEXES T) = nat NUM_HEXES"
    and "list_all (\<lambda>v. 1 \<le> v \<and> v \<le> MAX_TILE_VALUE) (availableTiles b (currentPlayer b))"
    and "getValidMoves T b = Some (ms, b')" and "m \<in> set ms"
  shows "isValidMove T b m = Some (True, b)"
proof -
  from getValidMoves_moves [OF assms(1-3)] assms(5,6)
  obtain h v where m: "m = Move h v" and leg: "legalHex T lines b h"
    and v: "v \<in> set (availableTiles b (currentPlayer b))"
    by auto
  from leg have r: "0 \<le> h" "h < NUM_HEXES" by (simp_all add: legalHex_def)
  from v assms(4) have vr: "1 \<le> v \<and> v \<le> MAX_TILE_VALUE" by (simp add: list_all_iff)
  have "isMoveLegal T b h = Some (True, b)"
    using isMoveLegal_legalHex [OF assms(1-3) r] leg by simp
  with r vr v show ?thesis
    by (simp add: isValidMove_def Move_isValid_def m Move_def isTileAvailable_def)
qed

theorem getValidMoves_all_valid_witness:
  "starterLinesAre sampleTables sampleLines
   \<and> list_all (\<lambda>v. 1 \<le> v \<and> v \<le> MAX_TILE_VALUE) (availableTiles onesBoard (currentPlayer onesBoard))
   \<and> Move 12 1 \<in> set [Move 4 1, Move 6 1, Move 7 1, Move 11 1, Move 12 1, Move 14 1]
   \<and> isValidMove sampleTables onesBoard (Move 12 1) = Some (True, onesBoard)"
proof -
  have l: "length (hexValues onesBoard) = nat NUM_HEXES"
    and a: "length (ADJACENT_HEXES sampleTables) = nat NUM_HEXES"
    and t: "list_all (\<lambda>v. 1 \<le> v \<and> v \<le> MAX_TILE_VALUE) (availableTiles onesBoard (currentPlayer onesBoard))"
    by code_simp+
  have m: "Move 12 1 \<in> set [Move 4 1, Move 6 1, Move 7 1, Move 11 1, Move 12 1, Move 14 1]"
    by simp
  show ?thesis
    using getValidMoves_all_valid [OF sample_lines l a t ones_moves m] sample_lines t by simp
qed

text \<open>
  C9 as stated fails on a bag that holds a value outside 1..9: with the bag \<open>[10]\<close> set
  by \<^verbatim>\<open>setAvailableTiles\<close>, \<^verbatim>\<open>getValidMoves\<close> pairs every legal hex with the tile 10, and
  \<^verbatim>\<open>isValidMove\<close> refuses the move, since \<^verbatim>\<open>isTileAvailable\<close> refuses every value
  outside \<open>1 .. MAX_TILE_VALUE\<close>.
\<close>

theorem getValidMoves_not_all_valid:
  "map_option fst (getValidMoves sampleTables (setAvailableTiles startBoard PLAYER_1 [10])) =
     Some [Move 4 10, Move 6 10, Move 7 10, Move 11 10, Move 12 10, Move 14 10]
   \<and> map_option fst (isValidMove sampleTables (setAvailableTiles startBoard PLAYER_1 [10]) (Move 4 10))
     = Some False"
  by code_simp

section \<open>The driver: configuration\<close>

lemma those_map_Some:
  "those (map f xs) = Some ys \<Longrightarrow>
   length ys = length xs \<and> (\<forall>i<length xs. f (xs ! i) = Some (ys ! i))"
proof (induction xs arbitrary: ys)
  case Nil
  then show ?case by simp
next
  case (Cons x xs)
  then show ?case
    by (auto split: option.splits simp: nth_Cons split: nat.splits)
qed

text \<open>
  The order that \<open>orderMoves\<close> gives is a rearrangement of the moves in descending
  score: an order that \<^verbatim>\<open>std::sort\<close> with the comparison of the source may give.
\<close>

lemma orderMoves_sorted:
  assumes "orderMoves moves ttEntry k h ply = Some ms"
  shows "mset ms = mset moves
         \<and> sorted (map (\<lambda>m. - the (moveScore ttEntry k h ply m)) ms)"
proof -
  obtain ss where ss: "those (map (moveScore ttEntry k h ply) moves) = Some ss"
    and ms: "ms = map (\<lambda>p. moves ! snd p) (sort_key (\<lambda>p. - fst p) (zip ss [0..<length moves]))"
    using assms by (auto simp: orderMoves_def Let_def split: bind_splits)
  have len: "length ss = length moves"
    and sc: "\<And>i. i < length moves \<Longrightarrow> moveScore ttEntry k h ply (moves ! i) = Some (ss ! i)"
    using those_map_Some [OF ss] by auto
  let ?z = "zip ss [0..<length moves]"
  have "mset (sort_key (\<lambda>p. - fst p) ?z) = mset ?z" by simp
  then have "image_mset (\<lambda>p. moves ! snd p) (mset (sort_key (\<lambda>p. - fst p) ?z)) =
             image_mset (\<lambda>p. moves ! snd p) (mset ?z)" by (rule arg_cong)
  then have "mset ms = mset (map (\<lambda>p. moves ! snd p) ?z)"
    unfolding ms mset_map .
  also have "map (\<lambda>p. moves ! snd p) ?z = map (\<lambda>i. moves ! i) (map snd ?z)" by simp
  also have "map snd ?z = [0..<length moves]" using len by simp
  also have "map (\<lambda>i. moves ! i) [0..<length moves] = moves" by (rule map_nth)
  finally have perm: "mset ms = mset moves" .
  have z: "\<And>p. p \<in> set ?z \<Longrightarrow> the (moveScore ttEntry k h ply (moves ! snd p)) = fst p"
    using sc len by (auto simp: set_zip)
  have "map (\<lambda>m. - the (moveScore ttEntry k h ply m)) ms =
        map (\<lambda>p. - the (moveScore ttEntry k h ply (moves ! snd p))) (sort_key (\<lambda>p. - fst p) ?z)"
    by (simp add: ms comp_def)
  also have "\<dots> = map (\<lambda>p. - fst p) (sort_key (\<lambda>p. - fst p) ?z)"
    using z by (intro map_cong) auto
  finally show ?thesis using perm by (simp add: sorted_sort_key del: set_zip)
qed

text \<open>
  C3 at its failing input. \<open>maxDepth\<close> is the \<^emph>\<open>maximum depth to search\<close> and a node of
  \<^verbatim>\<open>alphaBeta\<close> is a leaf when \<^verbatim>\<open>depth == 0\<close>. With \<open>maxDepth = 0\<close> and no iterative
  deepening the driver makes every root move and calls \<^verbatim>\<open>alphaBeta\<close> with the depth
  \<open>maxDepth - 1 = -1\<close>, which that test never meets: the search runs to the end of the
  game. On the board with two empty hexes the static evaluation of the root is 0; the call
  returns the score 2 after 8 nodes, four root moves each followed by the reply that fills
  the board. The same call with \<open>maxDepth = 1\<close> stops one move earlier: score 4 after 4
  nodes.
\<close>

theorem depth_zero_is_not_static_evaluation:
  "evaluate sampleTables endBoard = Some 0
   \<and> map_option (\<lambda>r. (score (fst r), nodesSearched (fst r)))
        (findBestMove sampleTables stillClock depthZeroConfig endBoard) = Some (2, 8)
   \<and> map_option (\<lambda>r. (score (fst r), nodesSearched (fst r)))
        (findBestMove sampleTables stillClock (depthZeroConfig\<lparr>maxDepth := 1\<rparr>) endBoard) =
       Some (4, 4)"
  by code_simp

lemma idIteration_useTranspositionTable:
  "idIteration T clk (cfg\<lparr>useTranspositionTable := x\<rparr>) d v = idIteration T clk cfg d v"
  by (simp add: idIteration_def)

lemma idLoop_useTranspositionTable:
  "idLoop k T clk (cfg\<lparr>useTranspositionTable := x\<rparr>) d v = idLoop k T clk cfg d v"
proof (induction k arbitrary: d v)
  case 0
  show ?case by simp
next
  case (Suc k)
  show ?case
    by (simp add: idIteration_useTranspositionTable Suc.IH
        split: option.splits prod.splits root_outcome.splits)
qed

lemma singleDepthSearch_useTranspositionTable:
  "singleDepthSearch T clk (cfg\<lparr>useTranspositionTable := x\<rparr>) moves b =
   singleDepthSearch T clk cfg moves b"
  by (simp add: singleDepthSearch_def)

text \<open>
  No function reads \<^verbatim>\<open>useTranspositionTable\<close>: the search is the same for both values
  of the flag.
\<close>

lemma findBestMove_useTranspositionTable:
  "findBestMove T clk (cfg\<lparr>useTranspositionTable := x\<rparr>) b = findBestMove T clk cfg b"
proof (cases "getValidMoves T b")
  case None
  then show ?thesis by (simp add: findBestMove_def)
next
  case (Some r)
  then show ?thesis
    by (cases r)
      (simp add: findBestMove_def singleDepthSearch_useTranspositionTable
        idLoop_useTranspositionTable)
qed

text \<open>
  C4 at its failing input. \<^verbatim>\<open>SearchConfig\<close> declares \<^verbatim>\<open>useTranspositionTable\<close> to switch
  the cache of positions, and the search with the flag off probes the table and stores
  into it. On the board with two empty hexes, with iterative deepening: up to depth 2 the
  result counts 4 probes that missed, and the table then holds 4 entries; up to depth 3
  the result counts 4 misses and 4 hits, the probes of depth 3 finding what depth 2
  stored.
\<close>

theorem table_probed_when_disabled:
  "map_option (\<lambda>r. (ttHits (fst r), ttMisses (fst r)))
     (findBestMove sampleTables stillClock
        (defaultConfig\<lparr>maxDepth := 2, useTranspositionTable := False\<rparr>) endBoard) = Some (0, 4)
   \<and> map_option (\<lambda>v. length (tt_table (s_tt (id_state v))))
       (idLoop 2 sampleTables stillClock
          (defaultConfig\<lparr>maxDepth := 2, useTranspositionTable := False\<rparr>) 1
          (idStart [Move 17 2, Move 17 3, Move 18 2, Move 18 3] endBoard)) = Some 4
   \<and> map_option (\<lambda>r. (ttHits (fst r), ttMisses (fst r)))
     (findBestMove sampleTables stillClock
        (defaultConfig\<lparr>maxDepth := 3, useTranspositionTable := False\<rparr>) endBoard) = Some (4, 4)"
  by code_simp

text \<open>
  C5 at its failing input. With \<^verbatim>\<open>useMoveOrdering = false\<close> and iterative deepening, the
  root moves are ordered before depth 2: the list that \<^verbatim>\<open>getValidMoves\<close> produced is
  searched in another order.
\<close>

theorem root_reordered_without_useMoveOrdering:
  "map_option fst (getValidMoves sampleTables endBoard) =
     Some [Move 17 2, Move 17 3, Move 18 2, Move 18 3]
   \<and> map_option id_moves
       (idLoop 2 sampleTables stillClock (defaultConfig\<lparr>maxDepth := 2, useMoveOrdering := False\<rparr>) 1
          (idStart [Move 17 2, Move 17 3, Move 18 2, Move 18 3] endBoard)) =
     Some [Move 18 3, Move 17 3, Move 18 2, Move 17 2]"
  by code_simp

section \<open>The driver: the deadline\<close>

lemma afterDepth_Some:
  assumes "afterDepth T clk cfg d v = Some v1"
  obtains ms l st where "idIteration T clk cfg d v = Some (ms, Completed l st)"
    and "v1 = idCommit v d ms l st"
  using assms
  by (auto simp: afterDepth_def split: option.splits prod.splits root_outcome.splits)

lemma depthBest_Some:
  assumes "depthBest T clk cfg d v = Some (bm, bs)"
  obtains ms l st where "idIteration T clk cfg d v = Some (ms, Completed l st)"
    and "bm = rl_bestMove l" and "bs = rl_bestScore l"
  using assms
  by (auto simp: depthBest_def split: option.splits prod.splits root_outcome.splits)

lemma idLoop_completed:
  assumes "completedDepths n T clk cfg d v = Some v'"
  shows "idLoop (n + k) T clk cfg d v = idLoop k T clk cfg (d + int n) v'"
  using assms
proof (induction n arbitrary: d v)
  case 0
  then show ?case by simp
next
  case (Suc n)
  from Suc.prems obtain v1 where a: "afterDepth T clk cfg d v = Some v1"
    and nm: "\<not> \<bar>id_bestScore v1\<bar> > MATE_SCORE - 100"
    and r: "completedDepths n T clk cfg (d + 1) v1 = Some v'"
    by (auto split: option.splits if_splits)
  from a obtain ms l st where it: "idIteration T clk cfg d v = Some (ms, Completed l st)"
    and v1: "v1 = idCommit v d ms l st"
    by (rule afterDepth_Some)
  from nm v1 have nm': "\<not> \<bar>rl_bestScore l\<bar> > MATE_SCORE - 100"
    by (simp add: idCommit_def)
  have "idLoop (Suc n + k) T clk cfg d v = idLoop (n + k) T clk cfg (d + 1) v1"
    using it nm' v1 by simp
  also have "\<dots> = idLoop k T clk cfg (d + 1 + int n) v'"
    by (rule Suc.IH [OF r])
  finally show ?case by (simp add: add.commute add.left_commute)
qed

lemma completedDepths_snoc:
  assumes "completedDepths n T clk cfg d v0 = Some v"
    and "afterDepth T clk cfg (d + int n) v = Some v1"
    and "\<not> \<bar>id_bestScore v1\<bar> > MATE_SCORE - 100"
  shows "completedDepths (Suc n) T clk cfg d v0 = Some v1"
  using assms
proof (induction n arbitrary: d v0)
  case 0
  then show ?case by simp
next
  case (Suc n)
  from Suc.prems(1) obtain w where a: "afterDepth T clk cfg d v0 = Some w"
    and nm: "\<not> \<bar>id_bestScore w\<bar> > MATE_SCORE - 100"
    and r: "completedDepths n T clk cfg (d + 1) w = Some v"
    by (auto split: option.splits if_splits)
  have "afterDepth T clk cfg (d + 1 + int n) v = Some v1"
    using Suc.prems(2) by (simp add: add.commute add.left_commute)
  from Suc.IH [OF r this Suc.prems(3)] a nm show ?case by simp
qed

lemma idLoop_aborted:
  assumes "depthAborted T clk cfg d v"
  shows "\<exists>ms st. idLoop (Suc k) T clk cfg d v = Some (idAbort v ms st)"
  using assms
  by (auto simp: depthAborted_def split: option.splits prod.splits root_outcome.splits)

lemma findBestMove_iterative:
  assumes "getValidMoves T b0 = Some (moves, b)" and "2 \<le> length moves"
    and "useIterativeDeepening cfg"
  shows "findBestMove T clk cfg b0 =
         map_option idFinish (idLoop (nat (maxDepth cfg)) T clk cfg 1 (idStart moves b))"
proof -
  from assms(2) have "moves \<noteq> []" "length moves \<noteq> 1" by auto
  with assms(1,3) show ?thesis by (simp add: findBestMove_def)
qed

text \<open>
  C2. Take a call of \<^verbatim>\<open>findBestMove\<close> with iterative deepening on a position with at least
  two legal moves. Let the depths \<open>1 .. n\<close> complete, let depth \<open>n + 1\<close> complete with the
  best move \<open>bm\<close> and score \<open>bs\<close> (not a mate score, so the loop goes on), and let depth
  \<open>n + 2\<close> be abandoned at the deadline. Then the result has \<open>timeout = true\<close>, and its
  move, score and depth are those committed by depth \<open>n + 1\<close>: nothing computed in the
  abandoned depth is returned. (When the first depth is abandoned there is no completed
  depth: the result is the first root move with the score \<open>-INF\<close>,
  \<open>timeout_in_first_depth\<close>.)
\<close>

theorem timeout_returns_last_completed_depth:
  assumes "getValidMoves T b0 = Some (moves, b)" and "2 \<le> length moves"
    and "useIterativeDeepening cfg"
    and "completedDepths n T clk cfg 1 (idStart moves b) = Some v"
    and "depthBest T clk cfg (1 + int n) v = Some (bm, bs)"
    and "\<not> \<bar>bs\<bar> > MATE_SCORE - 100"
    and "2 + int n \<le> maxDepth cfg"
    and "depthAborted T clk cfg (2 + int n) (the (afterDepth T clk cfg (1 + int n) v))"
  shows "\<exists>r b'. findBestMove T clk cfg b0 = Some (r, b') \<and> timeout r
           \<and> bestMove r = bm \<and> score r = bs \<and> depth r = 1 + int n"
proof -
  from assms(5) obtain ms l st where
    it: "idIteration T clk cfg (1 + int n) v = Some (ms, Completed l st)"
    and bm: "bm = rl_bestMove l" and bs: "bs = rl_bestScore l"
    by (rule depthBest_Some)
  define v1 where "v1 = idCommit v (1 + int n) ms l st"
  have a: "afterDepth T clk cfg (1 + int n) v = Some v1"
    using it by (simp add: afterDepth_def v1_def)
  have nm: "\<not> \<bar>id_bestScore v1\<bar> > MATE_SCORE - 100"
    using assms(6) bs by (simp add: v1_def idCommit_def)
  have cd1: "completedDepths (Suc n) T clk cfg 1 (idStart moves b) = Some v1"
    by (rule completedDepths_snoc [OF assms(4) a nm])
  from assms(7) obtain k where k: "nat (maxDepth cfg) = Suc n + Suc k"
  proof -
    from assms(7) have "Suc n + Suc (nat (maxDepth cfg) - Suc (Suc n)) = nat (maxDepth cfg)"
      by linarith
    then show ?thesis using that by metis
  qed
  have ab: "depthAborted T clk cfg (1 + int (Suc n)) v1"
    using assms(8) a by (simp add: add.commute)
  from idLoop_aborted [OF ab, of k] obtain ms' st' where
    e: "idLoop (Suc k) T clk cfg (1 + int (Suc n)) v1 = Some (idAbort v1 ms' st')"
    by blast
  have "idLoop (nat (maxDepth cfg)) T clk cfg 1 (idStart moves b) = Some (idAbort v1 ms' st')"
    unfolding k idLoop_completed [OF cd1] by (rule e)
  then have "findBestMove T clk cfg b0 = Some (idFinish (idAbort v1 ms' st'))"
    by (simp add: findBestMove_iterative [OF assms(1-3)])
  moreover have "timeout (fst (idFinish (idAbort v1 ms' st')))"
    and "bestMove (fst (idFinish (idAbort v1 ms' st'))) = bm"
    and "score (fst (idFinish (idAbort v1 ms' st'))) = bs"
    and "depth (fst (idFinish (idAbort v1 ms' st'))) = 1 + int n"
    by (simp_all add: idFinish_def idAbort_def v1_def idCommit_def bm bs)
  ultimately show ?thesis
    by (metis prod.collapse)
qed

lemma timeout_in_first_depth:
  assumes "getValidMoves T b0 = Some (moves, b)" and "2 \<le> length moves"
    and "useIterativeDeepening cfg" and "1 \<le> maxDepth cfg"
    and "depthAborted T clk cfg 1 (idStart moves b)"
  shows "\<exists>r b'. findBestMove T clk cfg b0 = Some (r, b') \<and> timeout r
           \<and> bestMove r = hd moves \<and> score r = - INF_score \<and> depth r = 0"
proof -
  from assms(4) obtain k where k: "nat (maxDepth cfg) = Suc k"
    by (metis Suc_pred' nat_0_iff not_less zero_less_nat_eq zless_add1_eq add.commute
        less_le_trans zero_less_one)
  from idLoop_aborted [OF assms(5), of k] obtain ms st where
    e: "idLoop (Suc k) T clk cfg 1 (idStart moves b) = Some (idAbort (idStart moves b) ms st)"
    by blast
  have "findBestMove T clk cfg b0 = Some (idFinish (idAbort (idStart moves b) ms st))"
    unfolding findBestMove_iterative [OF assms(1-3)] k e by simp
  moreover have "timeout (fst (idFinish (idAbort (idStart moves b) ms st)))"
    and "bestMove (fst (idFinish (idAbort (idStart moves b) ms st))) = hd moves"
    and "score (fst (idFinish (idAbort (idStart moves b) ms st))) = - INF_score"
    and "depth (fst (idFinish (idAbort (idStart moves b) ms st))) = 0"
    by (simp_all add: idFinish_def idAbort_def idStart_def SearchResult_def)
  ultimately show ?thesis
    by (metis prod.collapse)
qed

lemma deadline_seen_aborts_depth:
  assumes "mono clk"
    and "rootSearchMove T clk limit d (rl_alpha l) 1 m st = Some (sc, st1)"
    and "j \<le> s_reads st1" and "limit \<le> clk j"
  shows "rootMovesID T clk limit d (m # ms) l st =
         Some (Aborted (st1\<lparr>s_reads := s_reads st1 + 1\<rparr>))"
proof -
  from assms(1,3) have "clk j \<le> clk (s_reads st1)" by (rule monoD)
  with assms(4) have "limit \<le> clk (s_reads st1)" by simp
  with assms(2) show ?thesis by simp
qed

theorem timeout_returns_last_completed_depth_witness:
  "getValidMoves sampleTables endBoard =
     Some ([Move 17 2, Move 17 3, Move 18 2, Move 18 3], endBoard)
   \<and> depthBest sampleTables lateClock (defaultConfig\<lparr>maxDepth := 3, timeLimitMs := 50\<rparr>) 1
       (idStart [Move 17 2, Move 17 3, Move 18 2, Move 18 3] endBoard) = Some (Move 18 3, 4)
   \<and> depthAborted sampleTables lateClock (defaultConfig\<lparr>maxDepth := 3, timeLimitMs := 50\<rparr>) 2
       (the (afterDepth sampleTables lateClock (defaultConfig\<lparr>maxDepth := 3, timeLimitMs := 50\<rparr>) 1
          (idStart [Move 17 2, Move 17 3, Move 18 2, Move 18 3] endBoard)))
   \<and> (\<exists>r b'. findBestMove sampleTables lateClock
                 (defaultConfig\<lparr>maxDepth := 3, timeLimitMs := 50\<rparr>) endBoard = Some (r, b')
          \<and> timeout r \<and> bestMove r = Move 18 3 \<and> score r = 4 \<and> depth r = 1)"
proof -
  let ?cfg = "defaultConfig\<lparr>maxDepth := 3, timeLimitMs := 50\<rparr>"
  let ?ms = "[Move 17 2, Move 17 3, Move 18 2, Move 18 3]"
  have g: "getValidMoves sampleTables endBoard = Some (?ms, endBoard)"
    by code_simp
  have l: "2 \<le> length ?ms" by simp
  have i: "useIterativeDeepening ?cfg" by (simp add: defaultConfig_def)
  have c: "completedDepths 0 sampleTables lateClock ?cfg 1 (idStart ?ms endBoard) =
           Some (idStart ?ms endBoard)"
    by simp
  have b: "depthBest sampleTables lateClock ?cfg (1 + int 0) (idStart ?ms endBoard) =
           Some (Move 18 3, 4)"
    by code_simp
  have m: "\<not> \<bar>4::int\<bar> > MATE_SCORE - 100" by (simp add: MATE_SCORE_def)
  have d: "2 + int 0 \<le> maxDepth ?cfg" by (simp add: defaultConfig_def)
  have a: "depthAborted sampleTables lateClock ?cfg (2 + int 0)
            (the (afterDepth sampleTables lateClock ?cfg (1 + int 0) (idStart ?ms endBoard)))"
    by code_simp
  show ?thesis
    using timeout_returns_last_completed_depth [OF g l i c b m d a] g b a by simp
qed

section \<open>The position parser\<close>

lemma loadPosition_skips:
  "loadPosition sampleTables startBoard ''||h9:1,zz,h4,h77:3|turn:2||'' =
     Some (Inr (startBoard\<lparr>currentPlayer := 2, zobristHash := 1143\<rparr>))"
  by code_simp

text \<open>
  C6 at its failing inputs. A hex pair or a tile token that is not a number is not skipped:
  \<^verbatim>\<open>std::stoi\<close> throws and the exception leaves \<^verbatim>\<open>loadPosition\<close>, whatever the tables
  and the position loaded into: \<^verbatim>\<open>std::invalid_argument\<close> for a value that is not numeric
  and for an empty tile token, \<^verbatim>\<open>std::out_of_range\<close> for a number too large for an
  \<^verbatim>\<open>int\<close>. (Empty sections, pairs shorter than four characters or without a colon, and
  hex ids outside the board are skipped, \<open>loadPosition_skips\<close>.)
\<close>

theorem loadPosition_throws:
  "loadPosition T b ''h0:x'' = Some (Inl invalid_argument)
   \<and> loadPosition T b ''p1:1,,2'' = Some (Inl invalid_argument)
   \<and> loadPosition T b ''turn:99999999999'' = Some (Inl out_of_range)"
  by (simp add: loadPosition_def parseSection_def parseHexPair_def stoi_def isspace_def isdigit_def
      digitsValue_def Let_def)

end
